theory Spec2Isabelle
  imports Complex_Main "HOL-Library.Char_ord" "HOL-Library.List_Lexorder"
    "HOL-Library.Product_Lexorder" "HOL-Library.Sublist"
begin

section \<open>Tables of patient records\<close>

text \<open>
  \<^verbatim>\<open>health_analyzer.py\<close> works on a pandas DataFrame. A frame is modelled as the list
  of its column labels and the list of its rows, each row holding one cell per column
  label, in the order of the labels. Labels may repeat: \<^verbatim>\<open>clean_data\<close> lower-cases and
  trims the labels, so the labels \<^verbatim>\<open>Age\<close> and \<^verbatim>\<open>age\<close> of an uploaded file
  become the same label. The row labels (the index) of the frame are not modelled.

  A cell is a missing value, a string, a number, or a timestamp counted in nanoseconds
  since the epoch, as pandas stores it in a 64-bit integer. Numbers are rationals: the
  rounding of floating point arithmetic is not modelled. The one missing value
  \<open>Null\<close> stands for all the values pandas takes as missing: \<^verbatim>\<open>NaN\<close>, as
  \<^verbatim>\<open>read_csv\<close> leaves an empty field, \<^verbatim>\<open>NaT\<close> in a column of timestamps, and
  Python's \<^verbatim>\<open>None\<close>. Likewise \<open>Num 2\<close> stands for the integer 2 and for the float
  2.0. Which of them a cell holds shows only when the cell is printed, and there the
  text is asked of the library, cell by cell (see \<open>str_of\<close> below). The type pandas
  keeps for a column is not part of the frame; the one type that \<^verbatim>\<open>clean_data\<close>
  decides from the rows, that of the length of stay, is computed beside it (see
  \<open>days_dtype\<close> below).
\<close>

datatype cell = Null | Str string | Num rat | Date int

datatype error =
  KeyError | ValueError | TypeError | AttributeError | OverflowError | IndexError

record frame =
  columns :: "string list"
  rows :: "cell list list"

definition wf_frame :: "frame \<Rightarrow> bool" where
  "wf_frame df = list_all (\<lambda>r. length r = length (columns df)) (rows df)"

text \<open>
  What pandas, numpy and Python do inside is not code of this repository and is a
  parameter of the model:
  \<^item> how \<^verbatim>\<open>pd.to_datetime\<close> reads a cell that is not yet a timestamp (it may choose the
    format from the whole column, so the column is an argument), and how
    \<^verbatim>\<open>pd.to_numeric\<close> reads a cell that is not yet a number; \<open>None\<close> stands for a
    cell that cannot be read, which \<^verbatim>\<open>errors="coerce"\<close> turns into a missing value;
  \<^item> the text Python's \<^verbatim>\<open>str\<close> gives a cell that is not a string: \<open>str_of lib col i\<close>
    is the text of the cell at position \<open>i\<close> of the column \<open>col\<close>. It is asked by
    position because equal cells of the model may print differently: a missing value
    prints as \<^verbatim>\<open>nan\<close> when it is \<^verbatim>\<open>NaN\<close>, as \<^verbatim>\<open>None\<close> when it is \<^verbatim>\<open>None\<close> and
    as \<^verbatim>\<open>NaT\<close> when it is \<^verbatim>\<open>NaT\<close>, and the number 2 prints as \<^verbatim>\<open>2\<close> or as
    \<^verbatim>\<open>2.0\<close>;
  \<^item> the order in which numpy's \<^verbatim>\<open>argsort\<close> with its default \<^verbatim>\<open>kind="quicksort"\<close>
    lists the positions of an array of 64-bit integers and of an array of floats. That
    sort is not stable: which of two equal values comes first depends on numpy's version
    and on the processor.
\<close>

record library =
  parse_datetime :: "cell list \<Rightarrow> cell \<Rightarrow> int option"
  parse_numeric :: "cell \<Rightarrow> rat option"
  str_of :: "cell list \<Rightarrow> nat \<Rightarrow> string"
  argsort_int64 :: "int list \<Rightarrow> nat list"
  argsort_float64 :: "rat list \<Rightarrow> nat list"

subsection \<open>Strings\<close>

text \<open>
  A string is a list of characters with the codes 0 to 255, read as the first 256 code
  points of Unicode; text with other characters is not modelled. \<^verbatim>\<open>str.strip\<close>
  removes the white space at both ends: the codes 9 to 13, 28 to 32, 133 and 160.
  \<^verbatim>\<open>str.lower\<close> maps the capital letters, the codes 65 to 90, 192 to 214 and 216 to
  222, to the letter 32 codes further.
\<close>

definition isspace :: "char \<Rightarrow> bool" where
  "isspace c =
     (let n = (of_char c :: nat)
      in (9 \<le> n \<and> n \<le> 13) \<or> (28 \<le> n \<and> n \<le> 32) \<or> n = 133 \<or> n = 160)"

definition strip :: "string \<Rightarrow> string" where
  "strip s = rev (dropWhile isspace (rev (dropWhile isspace s)))"

definition lower_char :: "char \<Rightarrow> char" where
  "lower_char c =
     (let n = (of_char c :: nat)
      in if (65 \<le> n \<and> n \<le> 90) \<or> (192 \<le> n \<and> n \<le> 214) \<or> (216 \<le> n \<and> n \<le> 222)
         then char_of (n + 32) else c)"

definition lower :: "string \<Rightarrow> string" where
  "lower s = map lower_char s"

subsection \<open>Reading and writing columns\<close>

text \<open>
  \<open>cells_named cs r name\<close> are the cells of the row \<open>r\<close> under the label \<open>name\<close>, one
  for each column that carries the label; \<open>cell_at\<close> is the cell of the first such
  column. \<open>series df name\<close> is \<^verbatim>\<open>df[name]\<close> for a label that one column carries.
\<close>

definition cells_named :: "string list \<Rightarrow> cell list \<Rightarrow> string \<Rightarrow> cell list" where
  "cells_named cs r name = map snd (filter (\<lambda>p. fst p = name) (zip cs r))"

definition cell_at :: "string list \<Rightarrow> cell list \<Rightarrow> string \<Rightarrow> cell" where
  "cell_at cs r name = (case cells_named cs r name of [] \<Rightarrow> Null | x # _ \<Rightarrow> x)"

definition series :: "frame \<Rightarrow> string \<Rightarrow> cell list" where
  "series df name = map (\<lambda>r. cell_at (columns df) r name) (rows df)"

text \<open>
  \<open>upd_row name f cs r\<close> applies \<open>f\<close> to the cells of \<open>r\<close> under the label \<open>name\<close>.
  \<open>map_column\<close> is \<^verbatim>\<open>df[name] = g(df[name])\<close> for an element-wise \<open>g\<close>;
  \<open>assign_column\<close> is \<^verbatim>\<open>df[name] = s\<close> for a series \<open>s\<close> computed row by row: every
  column labelled \<open>name\<close> receives it, and a new last column is made when there is none.
\<close>

fun upd_row :: "string \<Rightarrow> (cell \<Rightarrow> cell) \<Rightarrow> string list \<Rightarrow> cell list \<Rightarrow> cell list" where
  "upd_row name f (c # cs) (x # xs) = (if c = name then f x else x) # upd_row name f cs xs"
| "upd_row name f [] xs = xs"
| "upd_row name f cs [] = []"

definition map_column :: "string \<Rightarrow> (cell \<Rightarrow> cell) \<Rightarrow> frame \<Rightarrow> frame" where
  "map_column name f df = df\<lparr>rows := map (upd_row name f (columns df)) (rows df)\<rparr>"

text \<open>
  \<open>map_column_at\<close> is \<open>map_column\<close> for a \<open>g\<close> that is given the position of the
  row as well.
\<close>

definition map_column_at :: "string \<Rightarrow> (nat \<Rightarrow> cell \<Rightarrow> cell) \<Rightarrow> frame \<Rightarrow> frame" where
  "map_column_at name f df =
     df\<lparr>rows := map (\<lambda>(i, r). upd_row name (f i) (columns df) r) (enumerate 0 (rows df))\<rparr>"

definition assign_column :: "string \<Rightarrow> (cell list \<Rightarrow> cell) \<Rightarrow> frame \<Rightarrow> frame" where
  "assign_column name g df =
     (if name \<in> set (columns df)
      then df\<lparr>rows := map (\<lambda>r. upd_row name (\<lambda>_. g r) (columns df) r) (rows df)\<rparr>
      else df\<lparr>columns := columns df @ [name], rows := map (\<lambda>r. r @ [g r]) (rows df)\<rparr>)"

section \<open>clean\_data\<close>

subsection \<open>Column names\<close>

text \<open>Line 28: \<^verbatim>\<open>df.columns = [c.strip().lower() for c in df.columns]\<close>.\<close>

definition normalize_columns :: "frame \<Rightarrow> frame" where
  "normalize_columns df = df\<lparr>columns := map (\<lambda>c. lower (strip c)) (columns df)\<rparr>"

text \<open>
  Lines 31 to 38: the first label of the tuple that the frame has is renamed, and the
  loop stops there. \<^verbatim>\<open>rename\<close> renames every column that carries the label.
\<close>

fun rename_first :: "string list \<Rightarrow> string \<Rightarrow> frame \<Rightarrow> frame" where
  "rename_first [] target df = df"
| "rename_first (col # rest) target df =
     (if col \<in> set (columns df)
      then df\<lparr>columns := map (\<lambda>c. if c = col then target else c) (columns df)\<rparr>
      else rename_first rest target df)"

subsection \<open>Dates, outcome, numbers\<close>

text \<open>
  A timestamp fits a signed 64-bit integer, whose least value stands for \<^verbatim>\<open>NaT\<close>.
\<close>

definition in_int64 :: "int \<Rightarrow> bool" where
  "in_int64 n = (- (2 ^ 63) < n \<and> n < 2 ^ 63)"

text \<open>
  \<^verbatim>\<open>pd.to_datetime(s, errors="coerce")\<close> on one cell: a timestamp stays, a missing
  value stays missing, any other cell is read by the library, and a cell it cannot read
  or whose date is out of range becomes missing.
\<close>

definition to_datetime_cell :: "(cell \<Rightarrow> int option) \<Rightarrow> cell \<Rightarrow> cell" where
  "to_datetime_cell p c =
     (case c of
        Null \<Rightarrow> Null
      | Date d \<Rightarrow> Date d
      | _ \<Rightarrow> (case p c of Some n \<Rightarrow> if in_int64 n then Date n else Null | None \<Rightarrow> Null))"

text \<open>
  Lines 40 to 43, for one of the two date labels. When two columns carry the label,
  \<^verbatim>\<open>df[name]\<close> is a frame, and \<^verbatim>\<open>pd.to_datetime\<close> of a frame without year, month and
  day columns raises \<^verbatim>\<open>ValueError\<close>.
\<close>

definition parse_dates :: "library \<Rightarrow> string \<Rightarrow> frame \<Rightarrow> error + frame" where
  "parse_dates lib name df =
     (if name \<in> set (columns df)
      then (if count_list (columns df) name = 1
            then Inr (map_column name (to_datetime_cell (parse_datetime lib (series df name))) df)
            else Inl ValueError)
      else Inr df)"

text \<open>
  Lines 46 and 47: \<^verbatim>\<open>astype(str)\<close> turns every cell of the column into its text, as
  pandas 2 does: a string is its own text, and the text of any other cell, a missing one
  included, is the one Python's \<^verbatim>\<open>str\<close> gives it. Then the string is lower-cased and
  trimmed. A frame (two columns of the label) has no \<^verbatim>\<open>str\<close> accessor:
  \<^verbatim>\<open>AttributeError\<close>.
\<close>

definition astype_str :: "library \<Rightarrow> cell list \<Rightarrow> nat \<Rightarrow> cell \<Rightarrow> string" where
  "astype_str lib col i c = (case c of Str s \<Rightarrow> s | _ \<Rightarrow> str_of lib col i)"

definition outcome_label :: "library \<Rightarrow> cell list \<Rightarrow> nat \<Rightarrow> cell \<Rightarrow> cell" where
  "outcome_label lib col i c = Str (strip (lower (astype_str lib col i c)))"

definition standardize_outcome :: "library \<Rightarrow> frame \<Rightarrow> error + frame" where
  "standardize_outcome lib df =
     (if ''outcome'' \<in> set (columns df)
      then (if count_list (columns df) ''outcome'' = 1
            then Inr (map_column_at ''outcome'' (outcome_label lib (series df ''outcome'')) df)
            else Inl AttributeError)
      else Inr df)"

text \<open>
  Lines 50 to 55: \<^verbatim>\<open>pd.to_numeric(s, errors="coerce")\<close>. A number stays, a cell that
  cannot be read becomes missing; \<^verbatim>\<open>pd.to_numeric\<close> of a frame raises \<^verbatim>\<open>TypeError\<close>.
\<close>

definition to_numeric_cell :: "(cell \<Rightarrow> rat option) \<Rightarrow> cell \<Rightarrow> cell" where
  "to_numeric_cell p c =
     (case c of
        Null \<Rightarrow> Null
      | Num n \<Rightarrow> Num n
      | _ \<Rightarrow> (case p c of Some n \<Rightarrow> Num n | None \<Rightarrow> Null))"

definition to_numeric :: "library \<Rightarrow> string \<Rightarrow> frame \<Rightarrow> error + frame" where
  "to_numeric lib name df =
     (if name \<in> set (columns df)
      then (if count_list (columns df) name = 1
            then Inr (map_column name (to_numeric_cell (parse_numeric lib)) df)
            else Inl TypeError)
      else Inr df)"

subsection \<open>Length of stay\<close>

text \<open>
  Lines 58 and 59. The difference of two timestamps is a 64-bit count of nanoseconds,
  and pandas raises \<^verbatim>\<open>OverflowError\<close> when it does not fit; \<^verbatim>\<open>.dt.days\<close> is the whole
  number of days, rounded down, and is missing where a date is missing.
\<close>

definition day_ns :: int where
  "day_ns = 86400000000000"

definition los_cell :: "cell \<Rightarrow> cell \<Rightarrow> cell" where
  "los_cell a d =
     (case a of
        Date x \<Rightarrow> (case d of Date y \<Rightarrow> Num (of_int ((y - x) div day_ns)) | _ \<Rightarrow> Null)
      | _ \<Rightarrow> Null)"

definition sub_overflows :: "cell \<Rightarrow> cell \<Rightarrow> bool" where
  "sub_overflows a d =
     (case a of
        Date x \<Rightarrow> (case d of Date y \<Rightarrow> \<not> in_int64 (y - x) | _ \<Rightarrow> False)
      | _ \<Rightarrow> False)"

definition row_los :: "string list \<Rightarrow> cell list \<Rightarrow> cell" where
  "row_los cs r = los_cell (cell_at cs r ''admission_date'') (cell_at cs r ''discharge_date'')"

definition row_overflows :: "string list \<Rightarrow> cell list \<Rightarrow> bool" where
  "row_overflows cs r =
     sub_overflows (cell_at cs r ''admission_date'') (cell_at cs r ''discharge_date'')"

definition compute_length_of_stay :: "frame \<Rightarrow> error + frame" where
  "compute_length_of_stay df =
     (if ''admission_date'' \<in> set (columns df) \<and> ''discharge_date'' \<in> set (columns df)
      then (if list_ex (row_overflows (columns df)) (rows df)
            then Inl OverflowError
            else Inr (assign_column ''length_of_stay'' (row_los (columns df)) df))
      else Inr df)"

subsection \<open>Missing department and gender\<close>

text \<open>Lines 62 to 65: \<^verbatim>\<open>df[name] = df[name].fillna("Unknown")\<close>.\<close>

definition fillna :: "cell \<Rightarrow> cell \<Rightarrow> cell" where
  "fillna v c = (if c = Null then v else c)"

definition fill_missing :: "string \<Rightarrow> frame \<Rightarrow> frame" where
  "fill_missing name df =
     (if name \<in> set (columns df) then map_column name (fillna (Str ''Unknown'')) df else df)"

subsection \<open>Duplicates\<close>

text \<open>
  \<^verbatim>\<open>drop_duplicates(subset, keep="first")\<close>. A frame with no column or no row is
  returned as it is, before anything else is looked at. Otherwise a label of the subset
  that the frame lacks raises \<^verbatim>\<open>KeyError\<close>; the key of a row is its cells under the
  labels of the subset (the whole row without a subset), and a row is dropped when an
  earlier row has its key. Missing values are equal to each other here.
\<close>

fun first_occurrences :: "('a \<Rightarrow> 'k) \<Rightarrow> 'k list \<Rightarrow> 'a list \<Rightarrow> 'a list" where
  "first_occurrences key seen [] = []"
| "first_occurrences key seen (x # xs) =
     (if key x \<in> set seen then first_occurrences key seen xs
      else x # first_occurrences key (key x # seen) xs)"

definition row_key :: "string list \<Rightarrow> string list \<Rightarrow> cell list \<Rightarrow> cell list" where
  "row_key labels cs r = map snd (filter (\<lambda>p. fst p \<in> set labels) (zip cs r))"

definition empty_frame :: "frame \<Rightarrow> bool" where
  "empty_frame df = (columns df = [] \<or> rows df = [])"

definition drop_duplicates :: "string list option \<Rightarrow> frame \<Rightarrow> error + frame" where
  "drop_duplicates labels df =
     (if empty_frame df then Inr df
      else (case labels of
              None \<Rightarrow> Inr (df\<lparr>rows := first_occurrences id [] (rows df)\<rparr>)
            | Some s \<Rightarrow>
                if list_all (\<lambda>name. name \<in> set (columns df)) s
                then Inr (df\<lparr>rows := first_occurrences (row_key s (columns df)) [] (rows df)\<rparr>)
                else Inl KeyError))"

subsection \<open>The whole of clean\_data\<close>

text \<open>
  Lines 26 to 65 change the frame held by the analyzer in place, one statement after
  the other; a statement that raises leaves the statements before it done.
\<close>

definition inplace_steps :: "library \<Rightarrow> (frame \<Rightarrow> error + frame) list" where
  "inplace_steps lib =
     [\<lambda>df. Inr (normalize_columns df),
      \<lambda>df. Inr (rename_first [''admission_date'', ''admit_date'', ''date_admitted'']
                  ''admission_date'' df),
      \<lambda>df. Inr (rename_first [''discharge_date'', ''date_discharged''] ''discharge_date'' df),
      parse_dates lib ''admission_date'',
      parse_dates lib ''discharge_date'',
      standardize_outcome lib,
      to_numeric lib ''age'',
      to_numeric lib ''satisfaction'',
      compute_length_of_stay,
      \<lambda>df. Inr (fill_missing ''department'' df),
      \<lambda>df. Inr (fill_missing ''gender'' df)]"

fun run_steps :: "(frame \<Rightarrow> error + frame) list \<Rightarrow> frame \<Rightarrow> error + frame" where
  "run_steps [] df = Inr df"
| "run_steps (f # fs) df = (case f df of Inl e \<Rightarrow> Inl e | Inr df' \<Rightarrow> run_steps fs df')"

definition prepare :: "library \<Rightarrow> frame \<Rightarrow> error + frame" where
  "prepare lib df = run_steps (inplace_steps lib) df"

text \<open>Lines 68 to 74: the duplicates are dropped into a new frame, which is returned.\<close>

definition dedup :: "frame \<Rightarrow> error + frame" where
  "dedup df =
     (if ''patient_id'' \<in> set (columns df)
      then drop_duplicates (Some [''patient_id'', ''admission_date'']) df
      else drop_duplicates None df)"

definition clean_data :: "library \<Rightarrow> frame \<Rightarrow> error + frame" where
  "clean_data lib df = (case prepare lib df of Inl e \<Rightarrow> Inl e | Inr df' \<Rightarrow> dedup df')"

subsection \<open>The type of the length of stay\<close>




text \<open>Kinds of cell.\<close>

definition is_date_or_null :: "cell \<Rightarrow> bool" where
  "is_date_or_null c = (case c of Null \<Rightarrow> True | Date d \<Rightarrow> True | _ \<Rightarrow> False)"

definition is_num_or_null :: "cell \<Rightarrow> bool" where
  "is_num_or_null c = (case c of Null \<Rightarrow> True | Num n \<Rightarrow> True | _ \<Rightarrow> False)"

section \<open>The queries\<close>

subsection \<open>Sorting and grouping\<close>

text \<open>
  \<^verbatim>\<open>groupby\<close> lists the groups in ascending order of their key. Keys are compared
  through \<open>cell_rank\<close>: numbers by value, timestamps by time, strings by their
  characters, and, between kinds, numbers before timestamps before strings.
\<close>

definition cell_rank :: "cell \<Rightarrow> nat \<times> rat \<times> string" where
  "cell_rank c =
     (case c of Num n \<Rightarrow> (0, n, []) | Date d \<Rightarrow> (1, of_int d, []) | Str s \<Rightarrow> (2, 0, s)
      | Null \<Rightarrow> (3, 0, []))"

text \<open>
  \<^verbatim>\<open>sort_values(ascending=False)\<close> sorts through pandas' \<^verbatim>\<open>nargsort\<close>: the entries
  with a value are reversed, numpy's \<^verbatim>\<open>argsort\<close> lists the positions of their values
  in ascending order, the entries are taken at these positions, and the result is
  reversed again; the entries with a missing value come last, in their order. Taking an
  entry at a position the array does not have raises \<^verbatim>\<open>IndexError\<close>. \<open>f\<close> reads the
  value of an entry.
\<close>

definition nargsort_desc ::
  "('v list \<Rightarrow> nat list) \<Rightarrow> ('a \<Rightarrow> 'v) \<Rightarrow> 'a list \<Rightarrow> error + 'a list" where
  "nargsort_desc argsort f xs =
     (let ys = rev xs; idx = argsort (map f ys)
      in if list_all (\<lambda>i. i < length ys) idx then Inr (rev (map (\<lambda>i. ys ! i) idx))
         else Inl IndexError)"

definition sort_values_desc ::
  "(rat list \<Rightarrow> nat list) \<Rightarrow> ('a \<times> rat option) list \<Rightarrow> error + ('a \<times> rat option) list" where
  "sort_values_desc argsort s =
     (case nargsort_desc argsort (\<lambda>p. the (snd p)) (filter (\<lambda>p. snd p \<noteq> None) s) of
        Inl e \<Rightarrow> Inl e
      | Inr t \<Rightarrow> Inr (t @ filter (\<lambda>p. snd p = None) s))"

text \<open>
  \<^verbatim>\<open>df.groupby(keys)\<close>: \<^verbatim>\<open>ValueError\<close> without keys, \<^verbatim>\<open>KeyError\<close> for a label the
  frame lacks, \<^verbatim>\<open>ValueError\<close> for a label that two columns carry. Rows with a missing
  value in the key are left out; each group is its key with its rows, in row order.
\<close>

definition group_key :: "string list \<Rightarrow> string list \<Rightarrow> cell list \<Rightarrow> cell list" where
  "group_key keys cs r = map (cell_at cs r) keys"

definition groupby :: "frame \<Rightarrow> string list \<Rightarrow> error + (cell list \<times> cell list list) list" where
  "groupby df keys =
     (if keys = [] then Inl ValueError
      else if \<not> list_all (\<lambda>k. k \<in> set (columns df)) keys then Inl KeyError
      else if \<not> list_all (\<lambda>k. count_list (columns df) k = 1) keys then Inl ValueError
      else (let rs = filter (\<lambda>r. Null \<notin> set (group_key keys (columns df) r)) (rows df);
                ks = sort_key (map cell_rank) (remdups (map (group_key keys (columns df)) rs))
            in Inr (map (\<lambda>k. (k, filter (\<lambda>r. group_key keys (columns df) r = k) rs)) ks)))"

text \<open>
  The mean of the numbers of a group, missing values skipped; missing when the group has
  no number. A column with a cell that is neither a number nor missing cannot be
  averaged (\<^verbatim>\<open>TypeError\<close>; averaging a column of timestamps is not modelled).
\<close>

definition numbers :: "cell list \<Rightarrow> rat list" where
  "numbers xs = List.map_filter (\<lambda>c. case c of Num n \<Rightarrow> Some n | _ \<Rightarrow> None) xs"

definition mean_cells :: "cell list \<Rightarrow> error + rat option" where
  "mean_cells xs =
     (if list_all is_num_or_null xs
      then Inr (if numbers xs = [] then None
                else Some (sum_list (numbers xs) / of_nat (length (numbers xs))))
      else Inl TypeError)"

fun collect :: "(error + 'a) list \<Rightarrow> error + 'a list" where
  "collect [] = Inr []"
| "collect (x # xs) =
     (case x of Inl e \<Rightarrow> Inl e
      | Inr v \<Rightarrow> (case collect xs of Inl e \<Rightarrow> Inl e | Inr vs \<Rightarrow> Inr (v # vs)))"

text \<open>
  \<^verbatim>\<open>df.groupby(column)[value_col].mean().sort_values(ascending=False)\<close>, lines 94 and
  109.
\<close>

definition group_means ::
  "library \<Rightarrow> frame \<Rightarrow> string \<Rightarrow> string \<Rightarrow> error + (cell list \<times> rat option) list" where
  "group_means lib df column value_col =
     (case groupby df [column] of
        Inl e \<Rightarrow> Inl e
      | Inr gs \<Rightarrow>
          if value_col \<notin> set (columns df) then Inl KeyError
          else if count_list (columns df) value_col \<noteq> 1 then Inl TypeError
          else (case collect (map (\<lambda>g. mean_cells (map (\<lambda>r. cell_at (columns df) r value_col) (snd g))) gs) of
                  Inl e \<Rightarrow> Inl e
                | Inr ms \<Rightarrow> sort_values_desc (argsort_float64 lib) (zip (map fst gs) ms)))"

subsection \<open>aggregate\_by and average\_satisfaction\_by\_department\<close>

text \<open>
  Lines 88 to 96. The result of the last branch, \<^verbatim>\<open>df.groupby(column).agg(agg)\<close> for
  an aggregation named by the caller, is kept as the name with the groups.
  \<^verbatim>\<open>value_col\<close> counts as given when it is neither \<^verbatim>\<open>None\<close> nor the empty string.
\<close>

datatype aggregate =
    Sizes "(cell list \<times> nat) list"
  | Means "(cell list \<times> rat option) list"
  | Generic string "(cell list \<times> cell list list) list"

definition aggregate_by ::
  "library \<Rightarrow> frame \<Rightarrow> string \<Rightarrow> string \<Rightarrow> string option \<Rightarrow> error + aggregate" where
  "aggregate_by lib df column agg value_col =
     (if agg = ''count''
      then (case groupby df [column] of
              Inl e \<Rightarrow> Inl e
            | Inr gs \<Rightarrow>
                (case nargsort_desc (argsort_int64 lib) (\<lambda>p. int (snd p))
                        (map (\<lambda>g. (fst g, length (snd g))) gs) of
                   Inl e \<Rightarrow> Inl e
                 | Inr s \<Rightarrow> Inr (Sizes s)))
      else if agg = ''mean'' \<and> value_col \<noteq> None \<and> value_col \<noteq> Some []
      then (case group_means lib df column (the value_col) of
              Inl e \<Rightarrow> Inl e
            | Inr ms \<Rightarrow> Inr (Means ms))
      else (case groupby df [column] of
              Inl e \<Rightarrow> Inl e
            | Inr gs \<Rightarrow> Inr (Generic agg gs)))"

text \<open>Lines 106 to 109.\<close>

definition average_satisfaction_by_department ::
  "library \<Rightarrow> frame \<Rightarrow> error + (cell list \<times> rat option) list" where
  "average_satisfaction_by_department lib df =
     (if ''satisfaction'' \<notin> set (columns df) \<or> ''department'' \<notin> set (columns df)
      then Inr []
      else group_means lib df ''department'' ''satisfaction'')"

subsection \<open>summarize\_outcomes\<close>

text \<open>
  Division of a count by a total, as numpy divides: a zero total gives a value that is
  not a number and nothing is raised.
\<close>

definition true_div :: "nat \<Rightarrow> nat \<Rightarrow> rat option" where
  "true_div c t = (if t = 0 then None else Some (of_nat c / of_nat t))"

text \<open>
  \<^verbatim>\<open>value_counts(dropna=False)\<close>: the values in the order of their first occurrence,
  each with the number of its occurrences, then sorted by descending count with
  \<^verbatim>\<open>sort_values\<close>.
\<close>

definition value_counts :: "library \<Rightarrow> 'a list \<Rightarrow> error + ('a \<times> nat) list" where
  "value_counts lib xs =
     nargsort_desc (argsort_int64 lib) (\<lambda>p. int (snd p))
       (map (\<lambda>v. (v, count_list xs v)) (first_occurrences id [] xs))"

text \<open>
  The argument \<^verbatim>\<open>by\<close> of \<^verbatim>\<open>summarize_outcomes\<close> is \<^verbatim>\<open>None\<close>, a label or a list of
  labels. \<^verbatim>\<open>if by:\<close> takes \<^verbatim>\<open>None\<close>, the empty label and the empty list as false.
\<close>

datatype grouping = ByNone | ByLabel string | ByLabels "string list"

definition truthy :: "grouping \<Rightarrow> bool" where
  "truthy b = (case b of ByNone \<Rightarrow> False | ByLabel l \<Rightarrow> l \<noteq> [] | ByLabels ls \<Rightarrow> ls \<noteq> [])"

definition labels_of :: "grouping \<Rightarrow> string list" where
  "labels_of b = (case b of ByNone \<Rightarrow> [] | ByLabel l \<Rightarrow> [l] | ByLabels ls \<Rightarrow> ls)"

text \<open>
  Lines 76 to 86. With a grouping,
  \<^verbatim>\<open>df.groupby(by)["outcome"].value_counts().unstack(fill_value=0)\<close>, as pandas 2
  computes it: \<^verbatim>\<open>groupby\<close> checks the labels; \<^verbatim>\<open>value_counts\<close> counts the rows for each
  combination of the grouping columns and the outcome, leaving out the rows where one of
  them is missing, and the combinations are indexed by the grouping labels followed by
  outcome, unless outcome is itself one of the grouping labels, which then are the
  whole index; \<^verbatim>\<open>unstack\<close> needs an index of two levels at least
  (\<^verbatim>\<open>ValueError\<close> otherwise) and makes the last level the columns of a table: a row for
  each combination of the other levels, a column for each value of the last one, both in
  ascending order, the count in the cell, 0 where there is no such row. Each row is
  then divided by its sum. What pandas does when two columns are labelled outcome is not
  followed: the model stops with \<^verbatim>\<open>ValueError\<close>. Without a grouping the values of the
  outcome column are counted, missing ones too, and each count is divided by the sum of
  the counts.
\<close>

datatype summary =
    Overall "(cell list \<times> nat) list" "(cell list \<times> rat option) list"
  | Grouped "cell list list" "cell list" "nat list list" "rat option list list"

definition index_levels :: "string list \<Rightarrow> string list" where
  "index_levels keys = (if ''outcome'' \<in> set keys then keys else keys @ [''outcome''])"

definition counted_rows :: "frame \<Rightarrow> string list \<Rightarrow> cell list list" where
  "counted_rows df levels =
     filter (\<lambda>r. Null \<notin> set (group_key levels (columns df) r)) (rows df)"

definition unstack_index :: "frame \<Rightarrow> string list \<Rightarrow> cell list list" where
  "unstack_index df levels =
     sort_key (map cell_rank)
       (remdups (map (group_key (butlast levels) (columns df)) (counted_rows df levels)))"

definition unstack_columns :: "frame \<Rightarrow> string list \<Rightarrow> cell list" where
  "unstack_columns df levels =
     sort_key cell_rank
       (remdups (map (\<lambda>r. cell_at (columns df) r (last levels)) (counted_rows df levels)))"

definition unstack_counts :: "frame \<Rightarrow> string list \<Rightarrow> nat list list" where
  "unstack_counts df levels =
     map (\<lambda>k. map (\<lambda>v. length (filter (\<lambda>r. group_key levels (columns df) r = k @ [v])
                              (counted_rows df levels)))
                (unstack_columns df levels))
       (unstack_index df levels)"

definition row_pct :: "nat list \<Rightarrow> rat option list" where
  "row_pct row = map (\<lambda>c. true_div c (sum_list row)) row"

definition summarize_outcomes :: "library \<Rightarrow> frame \<Rightarrow> grouping \<Rightarrow> error + summary" where
  "summarize_outcomes lib df b =
     (if truthy b
      then (case groupby df (labels_of b) of
              Inl e \<Rightarrow> Inl e
            | Inr gs \<Rightarrow>
                if ''outcome'' \<notin> set (columns df) then Inl KeyError
                else if count_list (columns df) ''outcome'' \<noteq> 1 then Inl ValueError
                else if length (index_levels (labels_of b)) < 2 then Inl ValueError
                else Inr (Grouped (unstack_index df (index_levels (labels_of b)))
                            (unstack_columns df (index_levels (labels_of b)))
                            (unstack_counts df (index_levels (labels_of b)))
                            (map row_pct (unstack_counts df (index_levels (labels_of b))))))
      else if ''outcome'' \<notin> set (columns df) then Inl KeyError
      else (case value_counts lib (map (\<lambda>r. cells_named (columns df) r ''outcome'') (rows df)) of
              Inl e \<Rightarrow> Inl e
            | Inr counts \<Rightarrow>
                Inr (Overall counts
                  (map (\<lambda>p. (fst p, true_div (snd p) (sum_list (map snd counts)))) counts))))"

subsection \<open>Admissions over time\<close>

text \<open>
  The frequency \<^verbatim>\<open>freq\<close> is modelled by the function that numbers the period a
  timestamp falls in: \<open>freq_D\<close> numbers the days and \<open>freq_M\<close>, the default
  \<^verbatim>\<open>"M"\<close>, the calendar months, both counted from January 1970.
\<close>

type_synonym freq = "int \<Rightarrow> int"

definition freq_D :: freq where
  "freq_D t = t div day_ns"

definition freq_M :: freq where
  "freq_M t =
     (let z = t div day_ns + 719468;
          era = z div 146097;
          doe = z mod 146097;
          yoe = (doe - doe div 1460 + doe div 36524 - doe div 146096) div 365;
          doy = doe - (365 * yoe + yoe div 4 - yoe div 100);
          mp = (5 * doy + 2) div 153;
          m = (if mp < 10 then mp + 3 else mp - 9);
          y = yoe + era * 400 + (if m \<le> 2 then 1 else 0)
      in (y - 1970) * 12 + (m - 1))"

text \<open>
  Lines 98 to 104. \<^verbatim>\<open>resample(freq).size()\<close> needs an index of timestamps
  (\<^verbatim>\<open>TypeError\<close> otherwise; the column counts as one of timestamps when all its cells
  are timestamps or missing), leaves the missing ones out, and returns a count for every
  period from that of the earliest timestamp to that of the latest. When the frame has
  rows and none has a timestamp, pandas 2 finds no earliest one and stops with
  \<^verbatim>\<open>AttributeError\<close>; a frame without rows gives the empty series.
\<close>

definition known_dates :: "cell list \<Rightarrow> int list" where
  "known_dates xs = List.map_filter (\<lambda>c. case c of Date d \<Rightarrow> Some d | _ \<Rightarrow> None) xs"

definition resample_size :: "freq \<Rightarrow> int list \<Rightarrow> (int \<times> nat) list" where
  "resample_size freq ds =
     (if ds = [] then []
      else map (\<lambda>p. (p, length (filter (\<lambda>d. freq d = p) ds)))
             [freq (Min (set ds)) .. freq (Max (set ds))])"

definition admissions_over_time :: "frame \<Rightarrow> freq \<Rightarrow> error + (int \<times> nat) list" where
  "admissions_over_time df freq =
     (if ''admission_date'' \<notin> set (columns df) then Inl ValueError
      else if count_list (columns df) ''admission_date'' \<noteq> 1 then Inl ValueError
      else if \<not> list_all is_date_or_null (series df ''admission_date'') then Inl TypeError
      else if rows df \<noteq> [] \<and> known_dates (series df ''admission_date'') = []
      then Inl AttributeError
      else Inr (resample_size freq (known_dates (series df ''admission_date''))))"

subsection \<open>Charts\<close>

text \<open>
  A chart is its mark, its data and its tooltip fields; \<^verbatim>\<open>None\<close> is no chart.
  Lines 112 to 148.
\<close>

record chart =
  mark :: string
  data :: frame
  tooltip :: "string list"

definition dropna :: "string list \<Rightarrow> frame \<Rightarrow> error + frame" where
  "dropna labels df =
     (if list_all (\<lambda>n. n \<in> set (columns df)) labels
      then Inr (df\<lparr>rows := filter (\<lambda>r. Null \<notin> set (row_key labels (columns df) r)) (rows df)\<rparr>)
      else Inl KeyError)"

text \<open>
  The bin of an age, \<^verbatim>\<open>(age // w).astype(int) * w\<close>: the quotient is rounded down and
  converted to a 64-bit integer, and the product is one of 64-bit integers, which wraps
  around. A quotient that does not fit 64 bits has no defined conversion; the model
  gives the least 64-bit integer, as x86 processors do. With the width 0 the quotient
  is not a finite number and cannot be converted (\<^verbatim>\<open>ValueError\<close>). The width is taken
  to fit 64 bits itself.
\<close>

definition wrap64 :: "int \<Rightarrow> int" where
  "wrap64 n = (n + 2 ^ 63) mod 2 ^ 64 - 2 ^ 63"

definition to_int64 :: "int \<Rightarrow> int" where
  "to_int64 q = (if - (2 ^ 63) \<le> q \<and> q < 2 ^ 63 then q else - (2 ^ 63))"

definition age_bin :: "int \<Rightarrow> cell \<Rightarrow> error + cell" where
  "age_bin w c =
     (case c of
        Num a \<Rightarrow>
          if w = 0 then Inl ValueError
          else Inr (Num (of_int (wrap64 (to_int64 (floor (a / of_int w)) * w))))
      | _ \<Rightarrow> Inl TypeError)"

definition plot_outcomes_by_age_hist :: "frame \<Rightarrow> int \<Rightarrow> error + chart option" where
  "plot_outcomes_by_age_hist df age_bin_width =
     (case (if ''age'' \<in> set (columns df) then dropna [''age'', ''outcome''] df else Inr df) of
        Inl e \<Rightarrow> Inl e
      | Inr d \<Rightarrow>
          if empty_frame d \<or> ''age'' \<notin> set (columns d) then Inr None
          else if count_list (columns d) ''age'' \<noteq> 1 then Inl ValueError
          else (case collect (map (\<lambda>r. age_bin age_bin_width (cell_at (columns d) r ''age'')) (rows d)) of
                  Inl e \<Rightarrow> Inl e
                | Inr bins \<Rightarrow>
                    Inr (Some \<lparr>mark = ''bar'',
                      data = assign_column ''age_bin''
                        (\<lambda>r. case age_bin age_bin_width (cell_at (columns d) r ''age'') of
                               Inr b \<Rightarrow> b | Inl e \<Rightarrow> Null) d,
                      tooltip = (if ''patient_id'' \<in> set (columns d)
                                 then [''age'', ''outcome'', ''patient_id'']
                                 else [''age'', ''outcome''])\<rparr>)))"

definition plot_admissions_over_time :: "frame \<Rightarrow> freq \<Rightarrow> error + chart option" where
  "plot_admissions_over_time df freq =
     (case admissions_over_time df freq of
        Inl e \<Rightarrow> Inl e
      | Inr s \<Rightarrow>
          Inr (Some \<lparr>mark = ''line'',
            data = \<lparr>columns = [''date'', ''admissions''],
                    rows = map (\<lambda>p. [Num (of_int (fst p)), Num (of_nat (snd p))]) s\<rparr>,
            tooltip = [''date'', ''admissions'']\<rparr>))"

definition plot_satisfaction_by_department :: "library \<Rightarrow> frame \<Rightarrow> error + chart option" where
  "plot_satisfaction_by_department lib df =
     (case average_satisfaction_by_department lib df of
        Inl e \<Rightarrow> Inl e
      | Inr ser \<Rightarrow>
          if ser = [] then Inr None
          else Inr (Some \<lparr>mark = ''bar'',
            data = \<lparr>columns = [''department'', ''satisfaction''],
                    rows = map (\<lambda>p. fst p @ [case snd p of None \<Rightarrow> Null | Some v \<Rightarrow> Num v]) ser\<rparr>,
            tooltip = [''department'', ''satisfaction'']\<rparr>))"

subsection \<open>The analyzer object\<close>

text \<open>
  Frames are objects: a store holds them, and a reference is a position in the store.
  \<^verbatim>\<open>__init__\<close> (lines 22 and 23) stores a copy of the caller's frame at a new
  position and keeps the reference to the copy. \<^verbatim>\<open>clean_data\<close> changes the frame
  behind that reference statement by statement, then puts the frame without duplicates
  at a new position, which becomes the analyzer's frame and the result. The result of
  the method is the error or the reference returned, the analyzer's reference after the
  call, and the store.
\<close>

type_synonym store = "frame list"

definition HealthAnalyzer :: "nat \<Rightarrow> store \<Rightarrow> nat \<times> store" where
  "HealthAnalyzer a st = (length st, st @ [st ! a])"

fun run_inplace :: "(frame \<Rightarrow> error + frame) list \<Rightarrow> nat \<Rightarrow> store \<Rightarrow> error option \<times> store" where
  "run_inplace [] a st = (None, st)"
| "run_inplace (f # fs) a st =
     (case f (st ! a) of Inl e \<Rightarrow> (Some e, st) | Inr d \<Rightarrow> run_inplace fs a (st[a := d]))"

definition clean_data_method :: "library \<Rightarrow> nat \<Rightarrow> store \<Rightarrow> (error + nat) \<times> nat \<times> store" where
  "clean_data_method lib self st =
     (case run_inplace (inplace_steps lib) self st of
        (Some e, st') \<Rightarrow> (Inl e, self, st')
      | (None, st') \<Rightarrow>
          (case dedup (st' ! self) of
             Inl e \<Rightarrow> (Inl e, self, st')
           | Inr d \<Rightarrow> (Inr (length st'), length st', st' @ [d])))"

subsection \<open>A library for the examples\<close>

text \<open>
  The examples below run the model with a small library: it reads two dates and three
  numbers written as strings, reads a number as a count of nanoseconds where a date is
  expected, as pandas does, prints every cell that is not a string as \<^verbatim>\<open>nan\<close>, the
  text of the missing value \<^verbatim>\<open>NaN\<close> that the example table has, and sorts as a stable
  sort does.
\<close>

definition stable_argsort :: "('v::linorder) list \<Rightarrow> nat list" where
  "stable_argsort xs = map snd (sort_key fst (zip xs [0..<length xs]))"

definition sample_library :: library where
  "sample_library =
     \<lparr>parse_datetime = (\<lambda>col c. case c of
          Str s \<Rightarrow> map_of [(''2020-01-05'', 1578182400000000000),
                            (''2020-01-07'', 1578355200000000000)] s
        | Num n \<Rightarrow> Some (floor n)
        | _ \<Rightarrow> None),
      parse_numeric = (\<lambda>c. case c of
          Str s \<Rightarrow> map_of [(''2'', 2), (''4'', 4), (''5'', 5)] s
        | _ \<Rightarrow> None),
      str_of = (\<lambda>col i. ''nan''),
      argsort_int64 = stable_argsort,
      argsort_float64 = stable_argsort\<rparr>"

text \<open>
  The same library for a table whose missing values are Python's \<^verbatim>\<open>None\<close>, which
  \<^verbatim>\<open>str\<close> prints as \<^verbatim>\<open>None\<close>.
\<close>

definition none_library :: library where
  "none_library = sample_library\<lparr>str_of := (\<lambda>col i. ''None'')\<rparr>"

text \<open>A table with labels to normalise, an alias, a duplicate visit and unreadable cells.\<close>

definition sample_table :: frame where
  "sample_table =
     \<lparr>columns = ['' Patient_ID'', ''Admit_Date'', ''Discharge_Date'', ''Outcome'', ''Age'',
                 ''Department'', ''Satisfaction''],
      rows = [[Str ''P1'', Str ''2020-01-05'', Str ''2020-01-07'', Str ''Discharge '', Num 34,
                 Str ''A'', Num 4],
              [Str ''P1'', Str ''2020-01-05'', Str ''2020-01-07'', Str ''death'', Num 34,
                 Str ''A'', Num 2],
              [Str ''P2'', Str ''2020-01-07'', Str ''soon'', Null, Str ''old'', Null, Str ''5''],
              [Str ''P3'', Str ''2020-01-05'', Str ''2020-01-05'', Str ''DAMA'', Num 51,
                 Str ''B'', Num 5]]\<rparr>"

definition prepared_sample :: frame where
  "prepared_sample =
     \<lparr>columns = [''patient_id'', ''admission_date'', ''discharge_date'', ''outcome'', ''age'',
                 ''department'', ''satisfaction'', ''length_of_stay''],
      rows = [[Str ''P1'', Date 1578182400000000000, Date 1578355200000000000,
                 Str ''discharge'', Num 34, Str ''A'', Num 4, Num 2],
              [Str ''P1'', Date 1578182400000000000, Date 1578355200000000000,
                 Str ''death'', Num 34, Str ''A'', Num 2, Num 2],
              [Str ''P2'', Date 1578355200000000000, Null, Str ''nan'', Null,
                 Str ''Unknown'', Num 5, Null],
              [Str ''P3'', Date 1578182400000000000, Date 1578182400000000000,
                 Str ''dama'', Num 51, Str ''B'', Num 5, Num 0]]\<rparr>"

definition cleaned_sample :: frame where
  "cleaned_sample =
     \<lparr>columns = [''patient_id'', ''admission_date'', ''discharge_date'', ''outcome'', ''age'',
                 ''department'', ''satisfaction'', ''length_of_stay''],
      rows = [[Str ''P1'', Date 1578182400000000000, Date 1578355200000000000,
                 Str ''discharge'', Num 34, Str ''A'', Num 4, Num 2],
              [Str ''P2'', Date 1578355200000000000, Null, Str ''nan'', Null,
                 Str ''Unknown'', Num 5, Null],
              [Str ''P3'', Date 1578182400000000000, Date 1578182400000000000,
                 Str ''dama'', Num 51, Str ''B'', Num 5, Num 0]]\<rparr>"



subsection \<open>What a sort does\<close>

text \<open>
  All that is known of numpy's \<^verbatim>\<open>argsort\<close> is that it sorts: it lists every position
  of the array once, and the values at the positions it lists are in ascending order.
  The properties of the sorted aggregates are proved for every library that sorts.
\<close>

definition sorts :: "('v::linorder list \<Rightarrow> nat list) \<Rightarrow> bool" where
  "sorts argsort =
     (\<forall>xs. distinct (argsort xs) \<and> set (argsort xs) = {0..<length xs} \<and>
           sorted (map (\<lambda>i. xs ! i) (argsort xs)))"

definition sorting :: "library \<Rightarrow> bool" where
  "sorting lib = (sorts (argsort_int64 lib) \<and> sorts (argsort_float64 lib))"

subsection \<open>What a cleaned frame looks like\<close>

text \<open>
  The predicates below describe the frame that lines 26 to 65 leave behind: the kinds of
  cell in each column that \<^verbatim>\<open>clean_data\<close> converts, the frame after each group of
  statements, and the state of the labels. They are used to state and prove the
  properties; the program does not compute them.
\<close>

definition is_label :: "cell \<Rightarrow> bool" where
  "is_label c = (case c of Str s \<Rightarrow> strip (lower s) = s | _ \<Rightarrow> False)"

definition all_cells :: "(cell \<Rightarrow> bool) \<Rightarrow> string \<Rightarrow> frame \<Rightarrow> bool" where
  "all_cells P name df = list_all (\<lambda>r. list_all P (cells_named (columns df) r name)) (rows df)"

definition all_rows :: "(string list \<Rightarrow> cell list \<Rightarrow> bool) \<Rightarrow> frame \<Rightarrow> bool" where
  "all_rows Q df = list_all (Q (columns df)) (rows df)"

definition renamed :: "frame \<Rightarrow> frame" where
  "renamed df =
     rename_first [''discharge_date'', ''date_discharged''] ''discharge_date''
       (rename_first [''admission_date'', ''admit_date'', ''date_admitted''] ''admission_date''
         (normalize_columns df))"

definition los_ok :: "string list \<Rightarrow> cell list \<Rightarrow> bool" where
  "los_ok cs r =
     (list_all (\<lambda>l. l = row_los cs r) (cells_named cs r ''length_of_stay'') \<and>
      \<not> row_overflows cs r)"

definition dated :: "library \<Rightarrow> frame \<Rightarrow> frame" where
  "dated lib df =
     (let d4 = map_column ''admission_date''
                 (to_datetime_cell (parse_datetime lib (series (renamed df) ''admission_date'')))
                 (renamed df)
      in map_column ''discharge_date''
           (to_datetime_cell (parse_datetime lib (series d4 ''discharge_date''))) d4)"

definition typed :: "library \<Rightarrow> frame \<Rightarrow> frame" where
  "typed lib df =
     map_column ''satisfaction'' (to_numeric_cell (parse_numeric lib))
       (map_column ''age'' (to_numeric_cell (parse_numeric lib))
         (map_column_at ''outcome'' (outcome_label lib (series (dated lib df) ''outcome''))
           (dated lib df)))"

definition with_los :: "frame \<Rightarrow> frame" where
  "with_los df =
     (if ''admission_date'' \<in> set (columns df) \<and> ''discharge_date'' \<in> set (columns df)
      then assign_column ''length_of_stay'' (row_los (columns df)) df else df)"

definition prepared_row :: "string list \<Rightarrow> cell list \<Rightarrow> bool" where
  "prepared_row cs r =
     (list_all is_date_or_null (cells_named cs r ''admission_date'') \<and>
      list_all is_date_or_null (cells_named cs r ''discharge_date'') \<and>
      list_all is_label (cells_named cs r ''outcome'') \<and>
      list_all is_num_or_null (cells_named cs r ''age'') \<and>
      list_all is_num_or_null (cells_named cs r ''satisfaction'') \<and>
      (''admission_date'' \<in> set cs \<and> ''discharge_date'' \<in> set cs \<longrightarrow> los_ok cs r) \<and>
      list_all (\<lambda>c. c \<noteq> Null) (cells_named cs r ''department'') \<and>
      list_all (\<lambda>c. c \<noteq> Null) (cells_named cs r ''gender''))"

definition prepared_columns :: "string list \<Rightarrow> bool" where
  "prepared_columns cs =
     (list_all (\<lambda>c. lower (strip c) = c) cs \<and>
      (''admit_date'' \<in> set cs \<or> ''date_admitted'' \<in> set cs \<longrightarrow> ''admission_date'' \<in> set cs) \<and>
      (''date_discharged'' \<in> set cs \<longrightarrow> ''discharge_date'' \<in> set cs) \<and>
      list_all (\<lambda>n. n \<in> set cs \<longrightarrow> count_list cs n = 1)
        [''admission_date'', ''discharge_date'', ''outcome'', ''age'', ''satisfaction''] \<and>
      (''admission_date'' \<in> set cs \<and> ''discharge_date'' \<in> set cs \<longrightarrow> ''length_of_stay'' \<in> set cs))"

definition prepared :: "frame \<Rightarrow> bool" where
  "prepared df = (prepared_columns (columns df) \<and> list_all (prepared_row (columns df)) (rows df))"

section \<open>Auxiliary facts\<close>

subsection \<open>Strings\<close>

lemma isspace_lower_char: "isspace (lower_char c) = isspace c"
  by (auto simp: isspace_def lower_char_def Let_def)

lemma lower_char_idem: "lower_char (lower_char c) = lower_char c"
  by (auto simp: lower_char_def Let_def)

lemma dropWhile_isspace_lower:
  "dropWhile isspace (map lower_char s) = map lower_char (dropWhile isspace s)"
  by (induction s) (auto simp: isspace_lower_char)

lemma strip_lower: "strip (lower s) = lower (strip s)"
  by (simp add: strip_def dropWhile_isspace_lower lower_def rev_map)

lemma lower_idem: "lower (lower s) = lower s"
  by (simp add: lower_def lower_char_idem)

lemma dropWhile_both_ends:
  "dropWhile P (rev (dropWhile P (rev t))) = rev (dropWhile P (rev (dropWhile P t)))"
proof (induction t)
  case Nil
  then show ?case by simp
next
  case (Cons x xs)
  show ?case
  proof (cases "P x")
    case True
    then show ?thesis using Cons
      by (auto simp: dropWhile_append dest: set_dropWhileD split: if_splits)
  next
    case False
    then show ?thesis
      by (auto simp: dropWhile_append split: if_splits)
  qed
qed

lemma strip_idem: "strip (strip s) = strip s"
  by (simp add: strip_def dropWhile_both_ends)

lemma normalize_idem: "lower (strip (lower (strip s))) = lower (strip s)"
  by (simp add: strip_lower lower_idem strip_idem)

subsection \<open>Rows\<close>

lemma length_upd_row [simp]: "length (upd_row n f cs r) = length r"
  by (induction n f cs r rule: upd_row.induct) auto

lemma cells_named_upd_row:
  "cells_named cs (upd_row n f cs r) m =
     (if m = n then map f (cells_named cs r n) else cells_named cs r m)"
  by (induction n f cs r rule: upd_row.induct) (auto simp: cells_named_def)

lemma cell_at_upd_row_other: "m \<noteq> n \<Longrightarrow> cell_at cs (upd_row n f cs r) m = cell_at cs r m"
  by (simp add: cell_at_def cells_named_upd_row)

lemma upd_row_id:
  "list_all (\<lambda>x. f x = x) (cells_named cs r n) \<Longrightarrow> upd_row n f cs r = r"
  by (induction n f cs r rule: upd_row.induct) (auto simp: cells_named_def)

lemma cells_named_append:
  "length r = length cs \<Longrightarrow>
     cells_named (cs @ [n]) (r @ [v]) m = cells_named cs r m @ (if m = n then [v] else [])"
  by (simp add: cells_named_def)

lemma cells_named_absent: "m \<notin> set cs \<Longrightarrow> cells_named cs r m = []"
  by (auto simp: cells_named_def filter_empty_conv dest: set_zip_leftD)

lemma cells_named_present:
  "m \<in> set cs \<Longrightarrow> length r = length cs \<Longrightarrow> cells_named cs r m \<noteq> []"
proof (induction cs r rule: list_induct2')
  case (4 c cs x xs)
  then show ?case by (cases "c = m") (auto simp: cells_named_def)
qed auto

subsection \<open>First occurrences\<close>

lemma fo_keys: "set (map key (first_occurrences key seen xs)) = set (map key xs) - set seen"
  by (induction key seen xs rule: first_occurrences.induct) auto

lemma fo_not_seen: "x \<in> set (first_occurrences key seen xs) \<Longrightarrow> key x \<notin> set seen"
  using fo_keys [of key seen xs] by auto

lemma fo_distinct: "distinct (map key (first_occurrences key seen xs))"
  by (induction key seen xs rule: first_occurrences.induct) (auto dest: fo_not_seen)

lemma fo_subseq: "subseq (first_occurrences key seen xs) xs"
  by (induction key seen xs rule: first_occurrences.induct) auto

lemma fo_id:
  "distinct (map key xs) \<Longrightarrow> set (map key xs) \<inter> set seen = {} \<Longrightarrow>
     first_occurrences key seen xs = xs"
  by (induction key seen xs rule: first_occurrences.induct) auto

lemma fo_enumerate:
  "first_occurrences key seen xs =
     map snd (filter (\<lambda>(i, x). key x \<notin> set seen \<union> set (map key (take (i - n) xs)))
       (enumerate n xs))"
proof (induction xs arbitrary: seen n)
  case Nil
  then show ?case by simp
next
  case (Cons x xs)
  have shift: "filter (\<lambda>(i, y). key y \<notin> set seen \<union> set (map key (take (i - n) (x # xs))))
          (enumerate (Suc n) xs)
        = filter (\<lambda>(i, y). key y \<notin> set (key x # seen) \<union> set (map key (take (i - Suc n) xs)))
          (enumerate (Suc n) xs)"
  proof (rule filter_cong [OF refl])
    fix p assume "p \<in> set (enumerate (Suc n) xs)"
    then have "Suc n \<le> fst p" by (auto simp: in_set_enumerate_eq)
    then have "fst p - n = Suc (fst p - Suc n)" by simp
    then show "(case p of (i, y) \<Rightarrow> key y \<notin> set seen \<union> set (map key (take (i - n) (x # xs))))
       = (case p of (i, y) \<Rightarrow> key y \<notin> set (key x # seen) \<union> set (map key (take (i - Suc n) xs)))"
      by (cases p) auto
  qed
  show ?case
  proof (cases "key x \<in> set seen")
    case True
    then have "set (key x # seen) = set seen" by auto
    with True show ?thesis
      using Cons.IH [of seen "Suc n"] shift by simp
  next
    case False
    then show ?thesis
      using Cons.IH [of "key x # seen" "Suc n"] shift by simp
  qed
qed

lemma fo_positions:
  "first_occurrences key [] xs =
     map snd (filter (\<lambda>(i, x). key x \<notin> set (map key (take i xs))) (enumerate 0 xs))"
  using fo_enumerate [of key "[]" xs 0] by simp

subsection \<open>The statements of clean\_data, one by one\<close>

lemma upd_row_absent: "n \<notin> set cs \<Longrightarrow> upd_row n f cs r = r"
  by (induction n f cs r rule: upd_row.induct) auto

lemma columns_map_column [simp]: "columns (map_column n f df) = columns df"
  by (simp add: map_column_def)

lemma rows_map_column: "rows (map_column n f df) = map (upd_row n f (columns df)) (rows df)"
  by (simp add: map_column_def)

lemma wf_map_column [simp]: "wf_frame (map_column n f df) = wf_frame df"
  by (simp add: wf_frame_def map_column_def list_all_iff)

lemma all_cells_map_column:
  "all_cells P m (map_column n f df) =
     (if m = n then all_cells (\<lambda>x. P (f x)) n df else all_cells P m df)"
  by (simp add: all_cells_def map_column_def list_all_iff cells_named_upd_row)

lemma all_rows_map_column:
  "all_rows Q (map_column n f df) = all_rows (\<lambda>cs r. Q cs (upd_row n f cs r)) df"
  by (simp add: all_rows_def map_column_def list_all_iff)

lemma all_cells_trivial: "(\<And>x. P x) \<Longrightarrow> all_cells P n df"
  by (simp add: all_cells_def list_all_iff)

lemma upd_row_absent_fun: "n \<notin> set cs \<Longrightarrow> upd_row n f cs = (\<lambda>r. r)"
  by (rule ext) (simp add: upd_row_absent)

lemma map_column_absent: "n \<notin> set (columns df) \<Longrightarrow> map_column n f df = df"
  by (simp add: map_column_def upd_row_absent_fun)


lemma list_all_map_enumerate:
  "(\<And>i x. P (g i x) = Q x) \<Longrightarrow>
     list_all P (map (\<lambda>(i, x). g i x) (enumerate n xs)) = list_all Q xs"
  by (induction xs arbitrary: n) auto

lemma columns_map_column_at [simp]: "columns (map_column_at n f df) = columns df"
  by (simp add: map_column_at_def)

lemma rows_map_column_at:
  "rows (map_column_at n f df) =
     map (\<lambda>(i, r). upd_row n (f i) (columns df) r) (enumerate 0 (rows df))"
  by (simp add: map_column_at_def)

lemma length_rows_map_column_at [simp]: "length (rows (map_column_at n f df)) = length (rows df)"
  by (simp add: map_column_at_def)

lemma wf_map_column_at [simp]: "wf_frame (map_column_at n f df) = wf_frame df"
proof -
  have "list_all (\<lambda>r. length r = length (columns df))
          (map (\<lambda>(i, r). upd_row n (f i) (columns df) r) (enumerate 0 (rows df)))
        = list_all (\<lambda>r. length r = length (columns df)) (rows df)"
    by (rule list_all_map_enumerate) simp
  then show ?thesis
    by (simp add: wf_frame_def map_column_at_def)
qed

lemma all_cells_map_column_at_other:
  "m \<noteq> n \<Longrightarrow> all_cells P m (map_column_at n f df) = all_cells P m df"
proof -
  assume "m \<noteq> n"
  then have "list_all (\<lambda>r. list_all P (cells_named (columns df) r m))
          (map (\<lambda>(i, r). upd_row n (f i) (columns df) r) (enumerate 0 (rows df)))
        = list_all (\<lambda>r. list_all P (cells_named (columns df) r m)) (rows df)"
    by (intro list_all_map_enumerate) (simp add: cells_named_upd_row)
  then show ?thesis
    by (simp add: all_cells_def map_column_at_def)
qed

lemma all_cells_map_column_at_same:
  "(\<And>i x. P (f i x)) \<Longrightarrow> all_cells P n (map_column_at n f df)"
  by (simp add: all_cells_def map_column_at_def list_all_iff split_beta cells_named_upd_row)

lemma map_column_at_id:
  assumes "all_cells (\<lambda>x. \<forall>i. f i x = x) n df"
  shows "map_column_at n f df = df"
proof -
  have "map (\<lambda>(i, r). upd_row n (f i) (columns df) r) (enumerate 0 (rows df))
        = map snd (enumerate 0 (rows df))"
  proof (rule map_cong [OF refl])
    fix p assume "p \<in> set (enumerate 0 (rows df))"
    then have "snd p \<in> snd ` set (enumerate 0 (rows df))" by (rule imageI)
    then have "snd p \<in> set (rows df)" by (simp only: set_map [symmetric] map_snd_enumerate)
    with assms have "list_all (\<lambda>x. f (fst p) x = x) (cells_named (columns df) (snd p) n)"
      by (auto simp: all_cells_def list_all_iff)
    then have "upd_row n (f (fst p)) (columns df) (snd p) = snd p" by (rule upd_row_id)
    then show "(case p of (i, r) \<Rightarrow> upd_row n (f i) (columns df) r) = snd p"
      by (simp add: case_prod_beta)
  qed
  then show ?thesis by (simp add: map_column_at_def)
qed

lemma map_column_at_absent: "n \<notin> set (columns df) \<Longrightarrow> map_column_at n f df = df"
  by (rule map_column_at_id) (simp add: all_cells_def cells_named_absent list_all_iff)

lemma parse_dates_Inr:
  assumes "parse_dates lib n df = Inr df'"
  shows "df' = map_column n (to_datetime_cell (parse_datetime lib (series df n))) df"
    and "n \<in> set (columns df) \<Longrightarrow> count_list (columns df) n = 1"
  using assms by (auto simp: parse_dates_def map_column_absent split: if_splits)

lemma standardize_outcome_Inr:
  assumes "standardize_outcome lib df = Inr df'"
  shows "df' = map_column_at ''outcome'' (outcome_label lib (series df ''outcome'')) df"
    and "''outcome'' \<in> set (columns df) \<Longrightarrow> count_list (columns df) ''outcome'' = 1"
  using assms by (auto simp: standardize_outcome_def map_column_at_absent split: if_splits)

lemma to_numeric_Inr:
  assumes "to_numeric lib n df = Inr df'"
  shows "df' = map_column n (to_numeric_cell (parse_numeric lib)) df"
    and "n \<in> set (columns df) \<Longrightarrow> count_list (columns df) n = 1"
  using assms by (auto simp: to_numeric_def map_column_absent split: if_splits)

lemma fill_missing_eq: "fill_missing n df = map_column n (fillna (Str ''Unknown'')) df"
  by (simp add: fill_missing_def map_column_absent)

lemma prepare_steps:
  assumes "prepare lib df = Inr pre"
  obtains d4 d5 d6 d7 d8 d9 where
    "parse_dates lib ''admission_date''
       (rename_first [''discharge_date'', ''date_discharged''] ''discharge_date''
         (rename_first [''admission_date'', ''admit_date'', ''date_admitted''] ''admission_date''
           (normalize_columns df))) = Inr d4"
    "parse_dates lib ''discharge_date'' d4 = Inr d5"
    "standardize_outcome lib d5 = Inr d6"
    "to_numeric lib ''age'' d6 = Inr d7"
    "to_numeric lib ''satisfaction'' d7 = Inr d8"
    "compute_length_of_stay d8 = Inr d9"
    "pre = fill_missing ''gender'' (fill_missing ''department'' d9)"
  using assms by (auto simp: prepare_def inplace_steps_def split: sum.splits)

lemma rows_rename_first [simp]: "rows (rename_first as t df) = rows df"
  by (induction as) auto

lemma length_columns_rename_first [simp]:
  "length (columns (rename_first as t df)) = length (columns df)"
  by (induction as) auto

lemma rows_renamed [simp]: "rows (renamed df) = rows df"
  by (simp add: renamed_def normalize_columns_def)

lemma wf_renamed [simp]: "wf_frame (renamed df) = wf_frame df"
  by (simp add: wf_frame_def renamed_def normalize_columns_def)

(* assign_column *)

lemma columns_assign_column:
  "columns (assign_column n g df) = (if n \<in> set (columns df) then columns df else columns df @ [n])"
  by (simp add: assign_column_def)

lemma wf_assign_column: "wf_frame df \<Longrightarrow> wf_frame (assign_column n g df)"
  by (simp add: wf_frame_def assign_column_def list_all_iff)

lemma all_cells_assign_column_other:
  "wf_frame df \<Longrightarrow> m \<noteq> n \<Longrightarrow> all_cells P m (assign_column n g df) = all_cells P m df"
  by (auto simp: all_cells_def assign_column_def wf_frame_def list_all_iff cells_named_upd_row
      cells_named_append)

lemma cell_at_append_other:
  "length r = length cs \<Longrightarrow> m \<noteq> n \<Longrightarrow> cell_at (cs @ [n]) (r @ [v]) m = cell_at cs r m"
  by (simp add: cell_at_def cells_named_append)

lemma row_los_upd_row:
  "n \<noteq> ''admission_date'' \<Longrightarrow> n \<noteq> ''discharge_date'' \<Longrightarrow>
     row_los cs (upd_row n f cs r) = row_los cs r"
  by (simp add: row_los_def cell_at_upd_row_other)

lemma row_overflows_upd_row:
  "n \<noteq> ''admission_date'' \<Longrightarrow> n \<noteq> ''discharge_date'' \<Longrightarrow>
     row_overflows cs (upd_row n f cs r) = row_overflows cs r"
  by (simp add: row_overflows_def cell_at_upd_row_other)

lemma los_ok_upd_row:
  "n \<noteq> ''admission_date'' \<Longrightarrow> n \<noteq> ''discharge_date'' \<Longrightarrow> n \<noteq> ''length_of_stay'' \<Longrightarrow>
     los_ok cs (upd_row n f cs r) = los_ok cs r"
  by (simp add: los_ok_def row_los_upd_row row_overflows_upd_row cells_named_upd_row)

lemma los_ok_assigned:
  "\<not> row_overflows cs r \<Longrightarrow>
     los_ok cs (upd_row ''length_of_stay'' (\<lambda>_. row_los cs r) cs r)"
  by (simp add: los_ok_def row_los_upd_row row_overflows_upd_row cells_named_upd_row list_all_iff)

lemma los_ok_appended:
  "\<not> row_overflows cs r \<Longrightarrow> length r = length cs \<Longrightarrow> ''length_of_stay'' \<notin> set cs \<Longrightarrow>
     los_ok (cs @ [''length_of_stay'']) (r @ [row_los cs r])"
  by (simp add: los_ok_def row_los_def row_overflows_def cell_at_append_other
      cells_named_append cells_named_absent)

lemma all_rows_los_ok_assign:
  assumes "wf_frame df" and "\<not> list_ex (row_overflows (columns df)) (rows df)"
  shows "all_rows los_ok (assign_column ''length_of_stay'' (row_los (columns df)) df)"
  using assms
  by (auto simp: all_rows_def assign_column_def wf_frame_def list_all_iff list_ex_iff
      los_ok_assigned los_ok_appended)

lemma compute_length_of_stay_Inr:
  assumes "compute_length_of_stay df = Inr df'"
  shows "df' = (if ''admission_date'' \<in> set (columns df) \<and> ''discharge_date'' \<in> set (columns df)
                then assign_column ''length_of_stay'' (row_los (columns df)) df else df)"
    and "''admission_date'' \<in> set (columns df) \<Longrightarrow> ''discharge_date'' \<in> set (columns df) \<Longrightarrow>
           \<not> list_ex (row_overflows (columns df)) (rows df)"
  using assms by (auto simp: compute_length_of_stay_def split: if_splits)

lemma columns_dated [simp]: "columns (dated lib df) = columns (renamed df)"
  by (simp add: dated_def Let_def)

lemma columns_typed [simp]: "columns (typed lib df) = columns (renamed df)"
  by (simp add: typed_def)

lemma wf_typed [simp]: "wf_frame (typed lib df) = wf_frame df"
  by (simp add: typed_def dated_def Let_def)

lemma prepare_chain:
  assumes "prepare lib df = Inr pre"
  shows "pre = map_column ''gender'' (fillna (Str ''Unknown''))
            (map_column ''department'' (fillna (Str ''Unknown'')) (with_los (typed lib df)))"
    and "''admission_date'' \<in> set (columns (renamed df)) \<Longrightarrow>
         ''discharge_date'' \<in> set (columns (renamed df)) \<Longrightarrow>
           \<not> list_ex (row_overflows (columns (renamed df))) (rows (typed lib df))"
    and "list_all (\<lambda>n. n \<in> set (columns (renamed df)) \<longrightarrow> count_list (columns (renamed df)) n = 1)
       [''admission_date'', ''discharge_date'', ''outcome'', ''age'', ''satisfaction'']"
proof -
  from assms obtain d4 d5 d6 d7 d8 d9 where
    s: "parse_dates lib ''admission_date'' (renamed df) = Inr d4"
    "parse_dates lib ''discharge_date'' d4 = Inr d5"
    "standardize_outcome lib d5 = Inr d6"
    "to_numeric lib ''age'' d6 = Inr d7"
    "to_numeric lib ''satisfaction'' d7 = Inr d8"
    "compute_length_of_stay d8 = Inr d9"
    "pre = fill_missing ''gender'' (fill_missing ''department'' d9)"
    unfolding renamed_def by (rule prepare_steps)
  note e = parse_dates_Inr [OF s(1)] parse_dates_Inr [OF s(2)] standardize_outcome_Inr [OF s(3)]
    to_numeric_Inr [OF s(4)] to_numeric_Inr [OF s(5)] compute_length_of_stay_Inr [OF s(6)]
  have c: "columns d4 = columns (renamed df)" "columns d5 = columns (renamed df)"
    "columns d6 = columns (renamed df)" "columns d7 = columns (renamed df)"
    "columns d8 = columns (renamed df)"
    using e(1,3,5,7,9) by simp_all
  have d8: "d8 = typed lib df"
    using e(1,3,5,7,9) by (simp add: typed_def dated_def Let_def)
  show "pre = map_column ''gender'' (fillna (Str ''Unknown''))
            (map_column ''department'' (fillna (Str ''Unknown'')) (with_los (typed lib df)))"
    using s(7) e(11) d8 by (simp add: fill_missing_eq with_los_def)
  show "''admission_date'' \<in> set (columns (renamed df)) \<Longrightarrow>
         ''discharge_date'' \<in> set (columns (renamed df)) \<Longrightarrow>
           \<not> list_ex (row_overflows (columns (renamed df))) (rows (typed lib df))"
    using e(12) d8 c(5) by simp
  show "list_all (\<lambda>n. n \<in> set (columns (renamed df)) \<longrightarrow> count_list (columns (renamed df)) n = 1)
       [''admission_date'', ''discharge_date'', ''outcome'', ''age'', ''satisfaction'']"
    using e(2,4,6,8,10) c by simp
qed

lemma normalized_literals:
  "lower (strip ''admission_date'') = ''admission_date''"
  "lower (strip ''discharge_date'') = ''discharge_date''"
  "lower (strip ''length_of_stay'') = ''length_of_stay''"
  by code_simp+

lemma rename_first_pres:
  "list_all P (columns df) \<Longrightarrow> P t \<Longrightarrow> list_all P (columns (rename_first as t df))"
  by (induction as) (auto simp: list_all_iff)

lemma renamed_normalized: "list_all (\<lambda>c. lower (strip c) = c) (columns (renamed df))"
  unfolding renamed_def
  by (intro rename_first_pres) (simp_all add: normalize_columns_def list_all_iff normalize_idem normalized_literals)

lemma renamed_aliases:
  "''admit_date'' \<in> set (columns (renamed df)) \<or> ''date_admitted'' \<in> set (columns (renamed df))
     \<longrightarrow> ''admission_date'' \<in> set (columns (renamed df))"
  "''date_discharged'' \<in> set (columns (renamed df)) \<longrightarrow> ''discharge_date'' \<in> set (columns (renamed df))"
  unfolding renamed_def by (auto split: if_splits)

lemma is_date_or_null_to_datetime [simp]: "is_date_or_null (to_datetime_cell p c)"
  by (simp add: is_date_or_null_def to_datetime_cell_def split: cell.splits option.splits)

lemma is_num_or_null_to_numeric [simp]: "is_num_or_null (to_numeric_cell p c)"
  by (simp add: is_num_or_null_def to_numeric_cell_def split: cell.splits option.splits)

lemma is_label_outcome_label [simp]: "is_label (outcome_label lib col i c)"
  by (simp add: is_label_def outcome_label_def strip_lower lower_idem strip_idem)

lemma fillna_not_Null [simp]: "v \<noteq> Null \<Longrightarrow> fillna v c \<noteq> Null"
  by (simp add: fillna_def)

lemma all_rows_prepared_row:
  "list_all (prepared_row (columns df)) (rows df) =
     (all_cells is_date_or_null ''admission_date'' df \<and>
      all_cells is_date_or_null ''discharge_date'' df \<and>
      all_cells is_label ''outcome'' df \<and>
      all_cells is_num_or_null ''age'' df \<and>
      all_cells is_num_or_null ''satisfaction'' df \<and>
      (''admission_date'' \<in> set (columns df) \<and> ''discharge_date'' \<in> set (columns df)
         \<longrightarrow> all_rows los_ok df) \<and>
      all_cells (\<lambda>c. c \<noteq> Null) ''department'' df \<and>
      all_cells (\<lambda>c. c \<noteq> Null) ''gender'' df)"
  by (auto simp: prepared_row_def all_cells_def all_rows_def list_all_iff)

lemma prepare_prepared:
  assumes p: "prepare lib df = Inr pre" and wf: "wf_frame df"
  shows "prepared pre" and "wf_frame pre"
    and "columns pre =
      (if ''admission_date'' \<in> set (columns (renamed df)) \<and>
          ''discharge_date'' \<in> set (columns (renamed df)) \<and>
          ''length_of_stay'' \<notin> set (columns (renamed df))
       then columns (renamed df) @ [''length_of_stay''] else columns (renamed df))"
proof -
  note pre = prepare_chain(1) [OF p] and ov = prepare_chain(2) [OF p] and un = prepare_chain(3) [OF p]
  have wf8: "wf_frame (typed lib df)" using wf by simp
  have wf9: "wf_frame (with_los (typed lib df))" using wf8 by (simp add: with_los_def wf_assign_column)
  show wfp: "wf_frame pre" using wf9 by (simp add: pre)
  show cols: "columns pre =
      (if ''admission_date'' \<in> set (columns (renamed df)) \<and>
          ''discharge_date'' \<in> set (columns (renamed df)) \<and>
          ''length_of_stay'' \<notin> set (columns (renamed df))
       then columns (renamed df) @ [''length_of_stay''] else columns (renamed df))"
    by (simp add: pre with_los_def columns_assign_column)
  have pc: "prepared_columns (columns pre)"
    using renamed_normalized [of df] renamed_aliases [of df] un
    unfolding cols prepared_columns_def
    by (auto simp: normalized_literals)
  have a: "all_cells is_date_or_null ''admission_date'' pre"
    "all_cells is_date_or_null ''discharge_date'' pre"
    "all_cells is_label ''outcome'' pre"
    "all_cells is_num_or_null ''age'' pre"
    "all_cells is_num_or_null ''satisfaction'' pre"
    "all_cells (\<lambda>c. c \<noteq> Null) ''department'' pre"
    "all_cells (\<lambda>c. c \<noteq> Null) ''gender'' pre"
    using wf8
    by (simp_all add: pre with_los_def typed_def dated_def Let_def all_cells_map_column
        all_cells_map_column_at_other all_cells_map_column_at_same
        all_cells_assign_column_other all_cells_trivial)
  have l: "all_rows los_ok pre"
    if "''admission_date'' \<in> set (columns pre)" "''discharge_date'' \<in> set (columns pre)"
  proof -
    from that have m: "''admission_date'' \<in> set (columns (renamed df))"
      "''discharge_date'' \<in> set (columns (renamed df))"
      by (auto simp: cols split: if_splits)
    then have "all_rows los_ok (with_los (typed lib df))"
      using all_rows_los_ok_assign [OF wf8] ov by (simp add: with_los_def)
    then show ?thesis
      by (simp add: pre all_rows_map_column los_ok_upd_row)
  qed
  show "prepared pre"
    unfolding prepared_def all_rows_prepared_row using pc a l by blast
qed






lemma prepared_cells:
  assumes "prepared df"
  shows "all_cells is_date_or_null ''admission_date'' df"
    "all_cells is_date_or_null ''discharge_date'' df"
    "all_cells is_label ''outcome'' df"
    "all_cells is_num_or_null ''age'' df"
    "all_cells is_num_or_null ''satisfaction'' df"
    "all_cells (\<lambda>c. c \<noteq> Null) ''department'' df"
    "all_cells (\<lambda>c. c \<noteq> Null) ''gender'' df"
    "''admission_date'' \<in> set (columns df) \<Longrightarrow> ''discharge_date'' \<in> set (columns df) \<Longrightarrow>
       all_rows los_ok df"
  using assms unfolding prepared_def all_rows_prepared_row by blast+







lemma fo_subset: "set (first_occurrences key seen xs) \<subseteq> set xs"
  by (induction key seen xs rule: first_occurrences.induct) auto

lemma dedup_Inr:
  assumes "dedup df = Inr out"
  shows "columns out = columns df" and "set (rows out) \<subseteq> set (rows df)"
    and "dedup out = Inr out"
proof -
  show c: "columns out = columns df"
    using assms by (auto simp: dedup_def drop_duplicates_def split: if_splits)
  show "set (rows out) \<subseteq> set (rows df)"
    using assms fo_subset [of id "[]" "rows df"]
      fo_subset [of "row_key [''patient_id'', ''admission_date''] (columns df)" "[]" "rows df"]
    by (auto simp: dedup_def drop_duplicates_def split: if_splits)
  show "dedup out = Inr out"
  proof (cases "empty_frame df")
    case True
    then have "out = df" using assms by (auto simp: dedup_def drop_duplicates_def split: if_splits)
    with True show ?thesis by (auto simp: dedup_def drop_duplicates_def)
  next
    case False
    show ?thesis
    proof (cases "''patient_id'' \<in> set (columns df)")
      case True
      with False assms have a: "list_all (\<lambda>name. name \<in> set (columns df)) [''patient_id'', ''admission_date'']"
        and o: "out = df\<lparr>rows := first_occurrences (row_key [''patient_id'', ''admission_date''] (columns df)) [] (rows df)\<rparr>"
        by (auto simp: dedup_def drop_duplicates_def split: if_splits)
      have "first_occurrences (row_key [''patient_id'', ''admission_date''] (columns df)) [] (rows out) = rows out"
        unfolding o by (simp add: fo_id fo_distinct)
      then have "out\<lparr>rows := first_occurrences (row_key [''patient_id'', ''admission_date''] (columns df)) [] (rows out)\<rparr> = out"
        by simp
      then show ?thesis using True a c
        by (auto simp: dedup_def drop_duplicates_def)
    next
      case np: False
      with False assms have o: "out = df\<lparr>rows := first_occurrences id [] (rows df)\<rparr>"
        by (auto simp: dedup_def drop_duplicates_def split: if_splits)
      have "first_occurrences id [] (rows out) = rows out"
        unfolding o using fo_distinct [of id "[]" "rows df"] by (simp add: fo_id)
      then have "out\<lparr>rows := first_occurrences id [] (rows out)\<rparr> = out"
        by simp
      then show ?thesis using np c
        by (auto simp: dedup_def drop_duplicates_def)
    qed
  qed
qed

lemma clean_data_prepared:
  assumes "clean_data lib df = Inr out" and "wf_frame df"
  shows "prepared out" and "wf_frame out"
proof -
  from assms(1) obtain pre where p: "prepare lib df = Inr pre" and d: "dedup pre = Inr out"
    by (auto simp: clean_data_def split: sum.splits)
  note q = prepare_prepared(1,2) [OF p assms(2)] and e = dedup_Inr [OF d]
  show "prepared out"
    using q(1) e(1,2) by (auto simp: prepared_def list_all_iff)
  show "wf_frame out"
    using q(2) e(1,2) by (auto simp: wf_frame_def list_all_iff)
qed

lemma rename_first_other:
  "n \<noteq> t \<Longrightarrow> n \<notin> set as \<Longrightarrow>
     n \<in> set (columns (rename_first as t df)) \<longleftrightarrow> n \<in> set (columns df)"
  by (induction as) auto

lemma renamed_other:
  assumes "n \<notin> set [''admission_date'', ''admit_date'', ''date_admitted'', ''discharge_date'', ''date_discharged'']"
  shows "n \<in> set (columns (renamed df)) \<longleftrightarrow> n \<in> set (map (\<lambda>c. lower (strip c)) (columns df))"
proof -
  have a: "n \<noteq> ''admission_date''" "n \<notin> set [''admission_date'', ''admit_date'', ''date_admitted'']"
    and d: "n \<noteq> ''discharge_date''" "n \<notin> set [''discharge_date'', ''date_discharged'']"
    using assms by auto
  have "n \<in> set (columns (renamed df)) \<longleftrightarrow>
        n \<in> set (columns (rename_first [''admission_date'', ''admit_date'', ''date_admitted'']
               ''admission_date'' (normalize_columns df)))"
    unfolding renamed_def by (rule rename_first_other [OF d])
  also have "\<dots> \<longleftrightarrow> n \<in> set (columns (normalize_columns df))"
    by (rule rename_first_other [OF a])
  finally show ?thesis by (simp add: normalize_columns_def)
qed

lemma cell_at_date_or_null:
  "list_all is_date_or_null (cells_named cs r n) \<Longrightarrow> is_date_or_null (cell_at cs r n)"
  by (auto simp: cell_at_def is_date_or_null_def split: list.splits)

lemma is_date_or_null_cases: "is_date_or_null c \<longleftrightarrow> c = Null \<or> (\<exists>x. c = Date x)"
  by (cases c) (auto simp: is_date_or_null_def)

lemma day_ns_pos: "0 < day_ns" by (simp add: day_ns_def)

lemma los_cell_dates: "los_cell (Date x) (Date y) = Num (of_int ((y - x) div day_ns))"
  by (simp add: los_cell_def)

lemma los_cell_Null: "a = Null \<or> d = Null \<Longrightarrow> los_cell a d = Null"
  by (cases a; cases d) (simp_all add: los_cell_def)

lemma whole_days_nonneg: "x \<le> y \<Longrightarrow> 0 \<le> (y - x) div day_ns"
  using day_ns_pos by (simp add: pos_imp_zdiv_nonneg_iff)

lemma prepare_columns_los:
  assumes "prepare lib df = Inr pre" and "wf_frame df"
  shows "''length_of_stay'' \<in> set (columns pre) \<longleftrightarrow>
            ''admission_date'' \<in> set (columns pre) \<and> ''discharge_date'' \<in> set (columns pre) \<or>
            ''length_of_stay'' \<in> set (map (\<lambda>c. lower (strip c)) (columns df))"
proof -
  have l: "''length_of_stay'' \<in> set (columns (renamed df)) \<longleftrightarrow>
      ''length_of_stay'' \<in> set (map (\<lambda>c. lower (strip c)) (columns df))"
    by (rule renamed_other) simp
  show ?thesis
  proof (cases "''admission_date'' \<in> set (columns (renamed df)) \<and>
          ''discharge_date'' \<in> set (columns (renamed df)) \<and>
          ''length_of_stay'' \<notin> set (columns (renamed df))")
    case True
    then have "columns pre = columns (renamed df) @ [''length_of_stay'']"
      using prepare_prepared(3) [OF assms] by simp
    then show ?thesis using True by simp
  next
    case False
    then have "columns pre = columns (renamed df)"
      using prepare_prepared(3) [OF assms] by simp
    with False l show ?thesis by auto
  qed
qed

subsection \<open>The example table\<close>

lemma clean_sample: "clean_data sample_library sample_table = Inr cleaned_sample"
  by code_simp

lemma wf_sample: "wf_frame sample_table"
  by code_simp

lemma prepare_sample: "prepare sample_library sample_table = Inr prepared_sample"
  by code_simp

subsection \<open>The store\<close>

lemma run_inplace_frame:
  "run_inplace fs self st = (r, st') \<Longrightarrow> self < length st \<Longrightarrow>
     length st' = length st \<and> (\<forall>i. i \<noteq> self \<longrightarrow> st' ! i = st ! i) \<and>
     (case r of None \<Rightarrow> run_steps fs (st ! self) = Inr (st' ! self)
              | Some e \<Rightarrow> run_steps fs (st ! self) = Inl e)"
proof (induction fs arbitrary: st)
  case Nil
  then show ?case by auto
next
  case (Cons f fs)
  show ?case
  proof (cases "f (st ! self)")
    case (Inl e)
    with Cons.prems show ?thesis by auto
  next
    case (Inr d)
    with Cons.prems have "run_inplace fs self (st[self := d]) = (r, st')" by simp
    from Cons.IH [OF this] Cons.prems(2) Inr show ?thesis by (auto split: option.splits)
  qed
qed

subsection \<open>The outcome column\<close>

lemma length_cells_named:
  "length r = length cs \<Longrightarrow> length (cells_named cs r n) = count_list cs n"
  by (induction r cs rule: list_induct2) (auto simp: cells_named_def)

lemma cells_named_unique:
  assumes "count_list cs n = 1" and "length r = length cs"
  shows "cells_named cs r n = [cell_at cs r n]"
proof -
  have "length (cells_named cs r n) = 1"
    using assms by (simp add: length_cells_named)
  then obtain x where "cells_named cs r n = [x]"
    by (cases "cells_named cs r n") auto
  then show ?thesis by (simp add: cell_at_def)
qed

lemma cells_named_rename:
  "n \<noteq> a \<Longrightarrow> n \<noteq> t \<Longrightarrow>
     cells_named (map (\<lambda>c. if c = a then t else c) cs) r n = cells_named cs r n"
proof (induction cs arbitrary: r)
  case Nil
  then show ?case by (simp add: cells_named_def)
next
  case (Cons c cs)
  then show ?case by (cases r) (auto simp: cells_named_def)
qed

lemma cells_named_rename_first:
  "n \<noteq> t \<Longrightarrow> n \<notin> set as \<Longrightarrow>
     cells_named (columns (rename_first as t df)) r n = cells_named (columns df) r n"
  by (induction as) (auto simp: cells_named_rename)

lemma cell_at_renamed:
  assumes "n \<notin> set [''admission_date'', ''admit_date'', ''date_admitted'', ''discharge_date'', ''date_discharged'']"
  shows "cell_at (columns (renamed df)) r n = cell_at (map (\<lambda>c. lower (strip c)) (columns df)) r n"
proof -
  have a: "n \<noteq> ''admission_date''" "n \<notin> set [''admission_date'', ''admit_date'', ''date_admitted'']"
    and d: "n \<noteq> ''discharge_date''" "n \<notin> set [''discharge_date'', ''date_discharged'']"
    using assms by auto
  have "cells_named (columns (renamed df)) r n =
        cells_named (columns (rename_first [''admission_date'', ''admit_date'', ''date_admitted'']
               ''admission_date'' (normalize_columns df))) r n"
    unfolding renamed_def by (rule cells_named_rename_first [OF d])
  also have "\<dots> = cells_named (columns (normalize_columns df)) r n"
    by (rule cells_named_rename_first [OF a])
  finally show ?thesis by (simp add: cell_at_def normalize_columns_def)
qed

lemma series_map_column_other: "m \<noteq> n \<Longrightarrow> series (map_column n f df) m = series df m"
  by (simp add: series_def map_column_def cell_at_upd_row_other)

lemma series_map_column_same:
  assumes "wf_frame df" and "n \<in> set (columns df)"
  shows "series (map_column n f df) n = map f (series df n)"
proof -
  have "cell_at (columns df) (upd_row n f (columns df) r) n = f (cell_at (columns df) r n)"
    if "r \<in> set (rows df)" for r
  proof -
    have "length r = length (columns df)"
      using assms(1) that by (simp add: wf_frame_def list_all_iff)
    from cells_named_present [OF assms(2) this] show ?thesis
      by (cases "cells_named (columns df) r n") (simp_all add: cell_at_def cells_named_upd_row)
  qed
  then show ?thesis by (simp add: series_def map_column_def)
qed

lemma series_assign_column_other:
  assumes "wf_frame df" and "m \<noteq> n"
  shows "series (assign_column n g df) m = series df m"
proof -
  have "length r = length (columns df)" if "r \<in> set (rows df)" for r
    using assms(1) that by (simp add: wf_frame_def list_all_iff)
  then show ?thesis
    using assms(2)
    by (simp add: series_def assign_column_def cell_at_upd_row_other cell_at_append_other)
qed

lemma series_with_los_other:
  "wf_frame df \<Longrightarrow> m \<noteq> ''length_of_stay'' \<Longrightarrow> series (with_los df) m = series df m"
  by (simp add: with_los_def series_assign_column_other)

lemma wf_dated [simp]: "wf_frame (dated lib df) = wf_frame df"
  by (simp add: dated_def Let_def)

lemma map_snd_enumerate_fun: "map (\<lambda>p. g (snd p)) (enumerate n xs) = map g xs"
  by (induction xs arbitrary: n) simp_all

lemma series_map_column_at_other:
  assumes "m \<noteq> n"
  shows "series (map_column_at n f df) m = series df m"
proof -
  have "series (map_column_at n f df) m =
        map (\<lambda>p. cell_at (columns df) (case p of (i, r) \<Rightarrow> upd_row n (f i) (columns df) r) m)
          (enumerate 0 (rows df))"
    by (simp add: series_def map_column_at_def comp_def)
  also have "\<dots> = map (\<lambda>p. cell_at (columns df) (snd p) m) (enumerate 0 (rows df))"
    using assms by (intro map_cong [OF refl]) (simp add: case_prod_beta cell_at_upd_row_other)
  also have "\<dots> = series df m"
    unfolding series_def by (rule map_snd_enumerate_fun)
  finally show ?thesis .
qed

lemma series_map_column_at_same:
  assumes "wf_frame df" and "n \<in> set (columns df)"
  shows "series (map_column_at n f df) n = map (\<lambda>(i, c). f i c) (enumerate 0 (series df n))"
proof (rule nth_equalityI)
  show "length (series (map_column_at n f df) n) =
        length (map (\<lambda>(i, c). f i c) (enumerate 0 (series df n)))"
    by (simp add: series_def)
next
  fix i assume "i < length (series (map_column_at n f df) n)"
  then have i: "i < length (rows df)" by (simp add: series_def)
  then have "length (rows df ! i) = length (columns df)"
    using assms(1) by (simp add: wf_frame_def list_all_iff)
  from cells_named_present [OF assms(2) this]
  have "cell_at (columns df) (upd_row n (f i) (columns df) (rows df ! i)) n =
        f i (cell_at (columns df) (rows df ! i) n)"
    by (cases "cells_named (columns df) (rows df ! i) n")
      (simp_all add: cell_at_def cells_named_upd_row)
  then show "series (map_column_at n f df) n ! i =
        map (\<lambda>(i, c). f i c) (enumerate 0 (series df n)) ! i"
    using i by (simp add: series_def map_column_at_def nth_enumerate_eq)
qed

lemma series_renamed_outcome:
  "series (renamed df) ''outcome'' = series (normalize_columns df) ''outcome''"
  by (simp add: series_def cell_at_renamed normalize_columns_def)

lemma series_prepared_outcome:
  assumes p: "prepare lib df = Inr pre" and wf: "wf_frame df"
    and o: "''outcome'' \<in> set (columns pre)"
  shows "series pre ''outcome'' =
     map (\<lambda>(i, c). outcome_label lib (series (normalize_columns df) ''outcome'') i c)
       (enumerate 0 (series (normalize_columns df) ''outcome''))"
proof -
  note pre = prepare_chain(1) [OF p]
  have o': "''outcome'' \<in> set (columns (renamed df))"
    using o prepare_prepared(3) [OF p wf] by (auto split: if_splits)
  have d: "series (dated lib df) ''outcome'' = series (normalize_columns df) ''outcome''"
    by (simp add: dated_def Let_def series_map_column_other series_renamed_outcome)
  have "series pre ''outcome'' = series (typed lib df) ''outcome''"
    using wf by (simp add: pre series_map_column_other series_with_los_other)
  also have "\<dots> = series (map_column_at ''outcome''
       (outcome_label lib (series (dated lib df) ''outcome'')) (dated lib df)) ''outcome''"
    by (simp add: typed_def series_map_column_other)
  also have "\<dots> = map (\<lambda>(i, c). outcome_label lib (series (dated lib df) ''outcome'') i c)
       (enumerate 0 (series (dated lib df) ''outcome''))"
    using wf o' by (simp add: series_map_column_at_same)
  finally show ?thesis by (simp only: d)
qed

lemma fo_set_id: "set (first_occurrences id [] xs) = set xs"
  using fo_keys [of id "[]" xs] by simp

lemma count_list_map_length:
  "count_list (map f xs) v = length (filter (\<lambda>x. f x = v) xs)"
  by (induction xs) auto

lemma is_label_cases: "is_label c \<longleftrightarrow> (\<exists>s. c = Str s \<and> strip (lower s) = s)"
  by (cases c) (auto simp: is_label_def)

subsection \<open>Time series\<close>

lemma filter_known_dates:
  "length (filter P (known_dates (map g rs))) =
     length (filter (\<lambda>r. case g r of Date d \<Rightarrow> P d | _ \<Rightarrow> False) rs)"
  by (induction rs) (auto simp: known_dates_def List.map_filter_simps split: cell.splits)

lemma series_date_or_null:
  "all_cells is_date_or_null n df \<Longrightarrow> list_all is_date_or_null (series df n)"
  by (simp add: all_cells_def series_def list_all_iff cell_at_date_or_null)

subsection \<open>The type of the length of stay\<close>





subsection \<open>Sorting\<close>

lemma sorts_stable_argsort: "sorts (stable_argsort :: 'v::linorder list \<Rightarrow> nat list)"
  unfolding sorts_def
proof (intro allI conjI)
  fix xs :: "'v list"
  let ?zs = "zip xs [0..<length xs]"
  have dz: "distinct ?zs" by (simp add: distinct_zipI2)
  have inj: "inj_on snd (set ?zs)"
    by (auto simp: inj_on_def set_zip)
  show "distinct (stable_argsort xs)"
    unfolding stable_argsort_def using inj dz by (simp add: distinct_map)
  have "set (map snd (sort_key fst ?zs)) = set (map snd ?zs)"
    by (simp only: set_map set_sort)
  then show "set (stable_argsort xs) = {0..<length xs}"
    unfolding stable_argsort_def by simp
  have "map (\<lambda>i. xs ! i) (map snd (sort_key fst ?zs)) = map fst (sort_key fst ?zs)"
    unfolding map_map by (rule map_cong [OF refl]) (auto simp: set_zip)
  then show "sorted (map (\<lambda>i. xs ! i) (stable_argsort xs))"
    unfolding stable_argsort_def by (simp only: sorted_sort_key)
qed

lemma sorting_sample: "sorting sample_library"
  by (simp add: sorting_def sample_library_def sorts_stable_argsort)

lemma nargsort_desc_sorts:
  assumes "sorts argsort"
  shows "\<exists>r. nargsort_desc argsort f xs = Inr r \<and> set r = set xs \<and>
           (distinct (map g xs) \<longrightarrow> distinct (map g r)) \<and>
           sorted_wrt (\<lambda>a b. f b \<le> f a) r"
proof -
  let ?ys = "rev xs"
  let ?idx = "argsort (map f ?ys)"
  let ?r = "rev (map (\<lambda>i. ?ys ! i) ?idx)"
  from assms have d: "distinct ?idx" and s: "set ?idx = {0..<length xs}"
    and o: "sorted (map (\<lambda>i. map f ?ys ! i) ?idx)"
    using assms unfolding sorts_def by (simp_all del: rev_map map_map)
  have lt: "i < length ?ys" if "i \<in> set ?idx" for i
    using that s by simp
  then have e: "nargsort_desc argsort f xs = Inr ?r"
    by (simp add: nargsort_desc_def Let_def list_all_iff)
  have "set (map (\<lambda>i. ?ys ! i) ?idx) = (\<lambda>i. ?ys ! i) ` {0..<length ?ys}"
    using s by simp
  also have "\<dots> = set ?ys"
    by (simp only: set_conv_nth) auto
  finally have st: "set ?r = set xs" by simp
  have dist: "distinct (map g ?r)" if dg: "distinct (map g xs)"
  proof -
    have dy: "distinct (map g ?ys)" using dg by (simp add: rev_map [symmetric])
    have "map g (map (\<lambda>i. ?ys ! i) ?idx) = map (\<lambda>i. map g ?ys ! i) ?idx"
      unfolding map_map by (rule map_cong [OF refl]) (use lt in simp)
    moreover have "inj_on (\<lambda>i. map g ?ys ! i) (set ?idx)"
    proof (rule inj_onI)
      fix x y assume x: "x \<in> set ?idx" and y: "y \<in> set ?idx"
        and eq: "map g ?ys ! x = map g ?ys ! y"
      have "x < length (map g ?ys)" "y < length (map g ?ys)"
        using lt [OF x] lt [OF y] by simp_all
      from nth_eq_iff_index_eq [OF dy this] eq show "x = y" by simp
    qed
    ultimately have "distinct (map g (map (\<lambda>i. ?ys ! i) ?idx))"
      using d by (simp only: distinct_map)
    then show ?thesis by (simp only: rev_map [symmetric] distinct_rev)
  qed
  have m: "map f (map (\<lambda>i. ?ys ! i) ?idx) = map (\<lambda>i. map f ?ys ! i) ?idx"
    unfolding map_map by (rule map_cong [OF refl]) (use lt in simp)
  have "sorted (map f (map (\<lambda>i. ?ys ! i) ?idx))" by (simp only: m o)
  then have "sorted_wrt (\<lambda>a b. f a \<le> f b) (map (\<lambda>i. ?ys ! i) ?idx)"
    by (simp only: sorted_map)
  then have so: "sorted_wrt (\<lambda>a b. f b \<le> f a) ?r"
    by (simp only: sorted_wrt_rev)
  show ?thesis using e st dist so by blast
qed

lemma value_counts_sorts:
  assumes "sorts (argsort_int64 lib)"
  shows "\<exists>c. value_counts lib xs = Inr c \<and> set c = (\<lambda>v. (v, count_list xs v)) ` set xs"
proof -
  from nargsort_desc_sorts [OF assms, of "\<lambda>p. int (snd p)"
      "map (\<lambda>v. (v, count_list xs v)) (first_occurrences id [] xs)" fst]
  obtain r where "value_counts lib xs = Inr r"
    and "set r = set (map (\<lambda>v. (v, count_list xs v)) (first_occurrences id [] xs))"
    unfolding value_counts_def by blast
  then show ?thesis by (auto simp: fo_set_id)
qed

lemma sort_values_desc_sorts:
  assumes srt: "sorts argsort" and key: "sorted_wrt (\<lambda>a b. g a < g b) s"
  shows "\<exists>m. sort_values_desc argsort s = Inr m \<and> set m = set s \<and>
     (distinct (map h s) \<longrightarrow> distinct (map h m)) \<and>
     sorted_wrt
       (\<lambda>a b. case snd a of
            Some x \<Rightarrow> (case snd b of Some y \<Rightarrow> y \<le> x | None \<Rightarrow> True)
          | None \<Rightarrow> (case snd b of Some y \<Rightarrow> False | None \<Rightarrow> g a < g b)) m"
proof -
  let ?R = "\<lambda>a b. case snd a of
            Some x \<Rightarrow> (case snd b of Some y \<Rightarrow> y \<le> x | None \<Rightarrow> True)
          | None \<Rightarrow> (case snd b of Some y \<Rightarrow> False | None \<Rightarrow> g a < g b)"
  let ?A = "filter (\<lambda>p. snd p \<noteq> None) s"
  let ?B = "filter (\<lambda>p. snd p = None) s"
  from nargsort_desc_sorts [OF srt, of "\<lambda>p. the (snd p)" ?A h]
  obtain t where t: "nargsort_desc argsort (\<lambda>p. the (snd p)) ?A = Inr t"
    and st: "set t = set ?A"
    and dt: "distinct (map h ?A) \<longrightarrow> distinct (map h t)"
    and so: "sorted_wrt (\<lambda>a b. the (snd b) \<le> the (snd a)) t"
    by blast
  have e: "sort_values_desc argsort s = Inr (t @ ?B)"
    unfolding sort_values_desc_def t by simp
  have se: "set (t @ ?B) = set s" using st by auto
  have di: "distinct (map h (t @ ?B))" if d: "distinct (map h s)"
  proof -
    have inj: "inj_on h (set s)" and ds: "distinct s" using d by (simp_all add: distinct_map)
    have "distinct (map h ?A)" using d by (rule distinct_map_filter)
    with dt have 1: "distinct (map h t)" by simp
    have 2: "distinct (map h ?B)" using d by (rule distinct_map_filter)
    have 3: "h ` set t \<inter> h ` set ?B = {}"
    proof (rule ccontr)
      assume "h ` set t \<inter> h ` set ?B \<noteq> {}"
      then obtain a b where a: "a \<in> set t" and b: "b \<in> set ?B" and ab: "h a = h b" by auto
      from a st have a': "a \<in> set s" "snd a \<noteq> None" by auto
      from b have b': "b \<in> set s" "snd b = None" by auto
      from inj ab a'(1) b'(1) have "a = b" by (rule inj_onD)
      with a'(2) b'(2) show False by simp
    qed
    from 1 2 3 show ?thesis by simp
  qed
  have a: "sorted_wrt ?R t"
    using so
  proof (rule sorted_wrt_mono_rel [rotated])
    fix x y assume "x \<in> set t" "y \<in> set t" "the (snd y) \<le> the (snd x)"
    then show "?R x y" using st by auto
  qed
  have "sorted_wrt (\<lambda>a b. g a < g b) ?B"
    using key by (rule sorted_wrt_filter)
  then have b: "sorted_wrt ?R ?B"
    by (rule sorted_wrt_mono_rel [rotated]) auto
  have c: "\<forall>x \<in> set t. \<forall>y \<in> set ?B. ?R x y" using st by auto
  have "sorted_wrt ?R (t @ ?B)"
    unfolding sorted_wrt_append using a b c by blast
  with e se di show ?thesis by blast
qed

subsection \<open>Groups\<close>

lemma count_list_one_mem: "count_list xs x = 1 \<Longrightarrow> x \<in> set xs"
  using count_list_0_iff [of xs x] by auto



lemma inj_cell_rank: "inj cell_rank"
proof (rule injI)
  fix x y assume "cell_rank x = cell_rank y"
  then show "x = y" by (cases x; cases y) (simp_all add: cell_rank_def)
qed

lemma sorted_keys:
  "sorted_wrt (\<lambda>a b. map cell_rank a < map cell_rank b)
     (sort_key (map cell_rank) (remdups ks))"
proof -
  have "sorted (map (map cell_rank) (sort_key (map cell_rank) (remdups ks)))"
    by (rule sorted_sort_key)
  moreover have "distinct (map (map cell_rank) (sort_key (map cell_rank) (remdups ks)))"
    using inj_cell_rank by (simp add: distinct_map inj_on_def inj_def)
  ultimately have "sorted_wrt (<) (map (map cell_rank) (sort_key (map cell_rank) (remdups ks)))"
    by (simp add: strict_sorted_iff)
  then show ?thesis by (simp add: sorted_wrt_map)
qed


lemma sorted_wrt_strict_distinct:
  fixes f :: "'a \<Rightarrow> 'v::linorder"
  shows "sorted_wrt (\<lambda>a b. f a < f b) xs \<Longrightarrow> distinct xs"
  by (induction xs) auto

lemma groupby_single:
  assumes "count_list (columns df) column = 1"
  shows "\<exists>ks. groupby df [column] =
           Inr (map (\<lambda>k. (k, filter (\<lambda>r. group_key [column] (columns df) r = k) (rows df))) ks) \<and>
         sorted_wrt (\<lambda>a b. map cell_rank a < map cell_rank b) ks \<and>
         set ks = {k \<in> set (map (group_key [column] (columns df)) (rows df)). Null \<notin> set k}"
proof -
  let ?key = "group_key [column] (columns df)"
  let ?rs = "filter (\<lambda>r. Null \<notin> set (?key r)) (rows df)"
  let ?ks = "sort_key (map cell_rank) (remdups (map ?key ?rs))"
  have m: "column \<in> set (columns df)" using assms by (rule count_list_one_mem)
  have g: "groupby df [column] = Inr (map (\<lambda>k. (k, filter (\<lambda>r. ?key r = k) ?rs)) ?ks)"
    using assms m by (simp add: groupby_def Let_def)
  have s: "set ?ks = {k \<in> set (map ?key (rows df)). Null \<notin> set k}"
    by auto
  have "map (\<lambda>k. (k, filter (\<lambda>r. ?key r = k) ?rs)) ?ks =
        map (\<lambda>k. (k, filter (\<lambda>r. ?key r = k) (rows df))) ?ks"
  proof (rule map_cong [OF refl])
    fix k assume "k \<in> set ?ks"
    then have "Null \<notin> set k" using s by blast
    then have "filter (\<lambda>r. ?key r = k) ?rs = filter (\<lambda>r. ?key r = k) (rows df)"
      by (auto intro: filter_cong)
    then show "(k, filter (\<lambda>r. ?key r = k) ?rs) = (k, filter (\<lambda>r. ?key r = k) (rows df))"
      by simp
  qed
  with g have "groupby df [column] = Inr (map (\<lambda>k. (k, filter (\<lambda>r. ?key r = k) (rows df))) ?ks)"
    by simp
  with s sorted_keys [of "map ?key ?rs"] show ?thesis by blast
qed

lemma collect_map_Inr: "collect (map (\<lambda>x. Inr (h x)) xs) = Inr (map h xs)"
  by (induction xs) simp_all

lemma zip_map_same: "zip (map f xs) (map g xs) = map (\<lambda>x. (f x, g x)) xs"
  by (induction xs) simp_all

lemma mean_cells_numeric:
  "list_all is_num_or_null xs \<Longrightarrow>
     mean_cells xs = Inr (if numbers xs = [] then None
                          else Some (sum_list (numbers xs) / of_nat (length (numbers xs))))"
  by (simp add: mean_cells_def)

lemma group_means_sorts:
  assumes srt: "sorts (argsort_float64 lib)"
    and c: "count_list (columns df) column = 1" and v: "count_list (columns df) value_col = 1"
    and n: "list_all is_num_or_null (series df value_col)"
  shows "\<exists>m. group_means lib df column value_col = Inr m \<and>
     sorted_wrt
       (\<lambda>a b. case snd a of
            Some x \<Rightarrow> (case snd b of Some y \<Rightarrow> y \<le> x | None \<Rightarrow> True)
          | None \<Rightarrow> (case snd b of
                        Some y \<Rightarrow> False
                      | None \<Rightarrow> map cell_rank (fst a) < map cell_rank (fst b))) m \<and>
     distinct (map fst m) \<and>
     set m =
       (\<lambda>k. (k, let ns = numbers (map (\<lambda>r. cell_at (columns df) r value_col)
                            (filter (\<lambda>r. group_key [column] (columns df) r = k) (rows df)))
                 in if ns = [] then None else Some (sum_list ns / of_nat (length ns)))) `
       {k \<in> set (map (group_key [column] (columns df)) (rows df)). Null \<notin> set k}"
proof -
  let ?h = "\<lambda>k. let ns = numbers (map (\<lambda>r. cell_at (columns df) r value_col)
                            (filter (\<lambda>r. group_key [column] (columns df) r = k) (rows df)))
                 in if ns = [] then None else Some (sum_list ns / of_nat (length ns))"
  from groupby_single [OF c] obtain ks where
    g: "groupby df [column] =
           Inr (map (\<lambda>k. (k, filter (\<lambda>r. group_key [column] (columns df) r = k) (rows df))) ks)"
    and s: "sorted_wrt (\<lambda>a b. map cell_rank a < map cell_rank b) ks"
    and k: "set ks = {k \<in> set (map (group_key [column] (columns df)) (rows df)). Null \<notin> set k}"
    by blast
  let ?gs = "map (\<lambda>k. (k, filter (\<lambda>r. group_key [column] (columns df) r = k) (rows df))) ks"
  have vm: "value_col \<in> set (columns df)" using v by (rule count_list_one_mem)
  have num: "list_all is_num_or_null (map (\<lambda>r. cell_at (columns df) r value_col)
        (filter P (rows df)))" for P
    using n by (auto simp: series_def list_all_iff)
  have "map (\<lambda>g. mean_cells (map (\<lambda>r. cell_at (columns df) r value_col) (snd g))) ?gs =
        map (\<lambda>k. Inr (?h k)) ks"
    by (simp add: comp_def mean_cells_numeric [OF num] Let_def)
  then have "collect (map (\<lambda>g. mean_cells (map (\<lambda>r. cell_at (columns df) r value_col) (snd g))) ?gs) =
        Inr (map ?h ks)"
    by (simp only: collect_map_Inr)
  moreover have "zip (map fst ?gs) (map ?h ks) = map (\<lambda>k. (k, ?h k)) ks"
    by (simp add: comp_def zip_map_same [of "\<lambda>k. k", simplified])
  ultimately have gm: "group_means lib df column value_col =
      sort_values_desc (argsort_float64 lib) (map (\<lambda>k. (k, ?h k)) ks)"
    using g v vm by (simp add: group_means_def)
  have key: "sorted_wrt (\<lambda>a b. map cell_rank (fst a) < map cell_rank (fst b)) (map (\<lambda>k. (k, ?h k)) ks)"
    using s by (simp add: sorted_wrt_map)
  have dk: "distinct (map fst (map (\<lambda>k. (k, ?h k)) ks))"
    using sorted_wrt_strict_distinct [OF s] by (simp add: comp_def)
  from sort_values_desc_sorts [OF srt key, of fst] dk
  obtain m where "sort_values_desc (argsort_float64 lib) (map (\<lambda>k. (k, ?h k)) ks) = Inr m"
    and "set m = set (map (\<lambda>k. (k, ?h k)) ks)" and "distinct (map fst m)"
    and "sorted_wrt
       (\<lambda>a b. case snd a of
            Some x \<Rightarrow> (case snd b of Some y \<Rightarrow> y \<le> x | None \<Rightarrow> True)
          | None \<Rightarrow> (case snd b of
                        Some y \<Rightarrow> False
                      | None \<Rightarrow> map cell_rank (fst a) < map cell_rank (fst b))) m"
    by blast
  with gm k show ?thesis
    by (intro exI [of _ m] conjI) simp_all
qed

lemma group_sizes_sorts:
  assumes srt: "sorts (argsort_int64 lib)"
    and c: "count_list (columns df) column = 1"
  shows "\<exists>s. aggregate_by lib df column ''count'' value_col = Inr (Sizes s) \<and>
            sorted_wrt (\<lambda>a b. snd b \<le> snd a) s \<and>
            distinct (map fst s) \<and>
            set s =
              (\<lambda>k. (k, length (filter (\<lambda>r. group_key [column] (columns df) r = k) (rows df)))) `
              {k \<in> set (map (group_key [column] (columns df)) (rows df)). Null \<notin> set k}"
proof -
  let ?n = "\<lambda>k. length (filter (\<lambda>r. group_key [column] (columns df) r = k) (rows df))"
  from groupby_single [OF c] obtain ks where
    g: "groupby df [column] =
           Inr (map (\<lambda>k. (k, filter (\<lambda>r. group_key [column] (columns df) r = k) (rows df))) ks)"
    and s: "sorted_wrt (\<lambda>a b. map cell_rank a < map cell_rank b) ks"
    and k: "set ks = {k \<in> set (map (group_key [column] (columns df)) (rows df)). Null \<notin> set k}"
    by blast
  have dk: "distinct (map fst (map (\<lambda>k. (k, ?n k)) ks))"
    using sorted_wrt_strict_distinct [OF s] by (simp add: comp_def)
  from nargsort_desc_sorts [OF srt, of "\<lambda>p. int (snd p)" "map (\<lambda>k. (k, ?n k)) ks" fst] dk
  obtain r where r: "nargsort_desc (argsort_int64 lib) (\<lambda>p. int (snd p)) (map (\<lambda>k. (k, ?n k)) ks) = Inr r"
    and st: "set r = set (map (\<lambda>k. (k, ?n k)) ks)" and dr: "distinct (map fst r)"
    and so: "sorted_wrt (\<lambda>a b. int (snd b) \<le> int (snd a)) r"
    by blast
  have a: "aggregate_by lib df column ''count'' value_col = Inr (Sizes r)"
    using g r by (simp add: aggregate_by_def comp_def)
  have so': "sorted_wrt (\<lambda>a b. snd b \<le> snd a) r" using so by simp
  show ?thesis using a so' dr st k
    by (intro exI [of _ r] conjI) simp_all
qed

subsection \<open>The table of outcomes by group\<close>










section \<open>Properties\<close>

text \<open>
  C1 (the code does not do what the claim says). \<^verbatim>\<open>clean_data\<close> is claimed never to
  raise, also for a table with a patient\_id column and no admission date column. On
  such a table with one row, whatever the library parsers do, the call of
  \<^verbatim>\<open>drop_duplicates\<close> names the absent label \<^verbatim>\<open>admission_date\<close> and raises
  \<^verbatim>\<open>KeyError\<close>.
\<close>

theorem clean_data_raises_without_admission_date:
  "clean_data lib \<lparr>columns = [''patient_id''], rows = [[Str ''P1'']]\<rparr> = Inl KeyError"
  by (simp add: clean_data_def prepare_def inplace_steps_def normalize_columns_def
      parse_dates_def standardize_outcome_def to_numeric_def compute_length_of_stay_def
      fill_missing_def dedup_def drop_duplicates_def empty_frame_def
      lower_def strip_def lower_char_def isspace_def)

text \<open>
  C5 (corrected). As stated: after cleaning a table with a patient\_id column no two
  rows share the pair of patient\_id and admission\_date, the first row of each pair being
  kept, and cleaning a table without patient\_id removes the later of any identical rows.
  The second half fails for a table that has no column at all: \<^verbatim>\<open>drop_duplicates\<close>
  returns such a frame as it is, so two rows, both empty, both stay.
\<close>

theorem table_without_columns_keeps_equal_rows:
  "clean_data sample_library \<lparr>columns = [], rows = [[], []]\<rparr>
     = Inr \<lparr>columns = [], rows = [[], []]\<rparr> \<and>
   ''patient_id'' \<notin> set (columns \<lparr>columns = [], rows = [[], []]\<rparr>) \<and>
   \<not> distinct (rows \<lparr>columns = [], rows = [[], []]\<rparr>)"
  by code_simp

text \<open>
  C5 as amended. Let \<open>pre\<close> be the frame that lines 26 to 65 of \<^verbatim>\<open>clean_data\<close>
  produce and \<open>out\<close> the frame returned. The columns are those of \<open>pre\<close>. With
  a patient\_id column, the rows of \<open>out\<close> have pairwise different
  (patient\_id, admission\_date) keys and are the rows of \<open>pre\<close> whose key no earlier
  row has, in their order. Without patient\_id and with at least one column, the rows of
  \<open>out\<close> are pairwise different and are the rows of \<open>pre\<close> that no earlier row
  equals. With no column the rows are those of \<open>pre\<close>.
\<close>

theorem clean_data_deduplicates:
  assumes "prepare lib df = Inr pre" and "clean_data lib df = Inr out"
  shows "columns out = columns pre \<and>
     (''patient_id'' \<in> set (columns pre) \<longrightarrow>
        distinct (map (row_key [''patient_id'', ''admission_date''] (columns pre)) (rows out)) \<and>
        rows out = map snd (filter
          (\<lambda>(i, r). row_key [''patient_id'', ''admission_date''] (columns pre) r
              \<notin> set (map (row_key [''patient_id'', ''admission_date''] (columns pre))
                     (take i (rows pre))))
          (enumerate 0 (rows pre)))) \<and>
     (''patient_id'' \<notin> set (columns pre) \<and> columns pre \<noteq> [] \<longrightarrow>
        distinct (rows out) \<and>
        rows out = map snd (filter (\<lambda>(i, r). r \<notin> set (take i (rows pre)))
          (enumerate 0 (rows pre)))) \<and>
     (columns pre = [] \<longrightarrow> rows out = rows pre)"
proof -
  from assms have d: "dedup pre = Inr out"
    by (simp add: clean_data_def)
  have cols: "columns out = columns pre"
    using d by (auto simp: dedup_def drop_duplicates_def split: if_splits)
  have keyed: "distinct (map (row_key [''patient_id'', ''admission_date''] (columns pre)) (rows out)) \<and>
        rows out = map snd (filter
          (\<lambda>(i, r). row_key [''patient_id'', ''admission_date''] (columns pre) r
              \<notin> set (map (row_key [''patient_id'', ''admission_date''] (columns pre))
                     (take i (rows pre))))
          (enumerate 0 (rows pre)))" if p: "''patient_id'' \<in> set (columns pre)"
  proof (cases "rows pre = []")
    case True
    then show ?thesis using d p by (auto simp: dedup_def drop_duplicates_def empty_frame_def)
  next
    case False
    then have "rows out = first_occurrences (row_key [''patient_id'', ''admission_date''] (columns pre)) [] (rows pre)"
      using d p by (auto simp: dedup_def drop_duplicates_def empty_frame_def split: if_splits)
    then show ?thesis
      using fo_distinct [of "row_key [''patient_id'', ''admission_date''] (columns pre)" "[]" "rows pre"]
        fo_positions [of "row_key [''patient_id'', ''admission_date''] (columns pre)" "rows pre"]
      by simp
  qed
  have plain: "distinct (rows out) \<and>
        rows out = map snd (filter (\<lambda>(i, r). r \<notin> set (take i (rows pre)))
          (enumerate 0 (rows pre)))"
    if p: "''patient_id'' \<notin> set (columns pre)" and c: "columns pre \<noteq> []"
  proof (cases "rows pre = []")
    case True
    then show ?thesis using d p by (auto simp: dedup_def drop_duplicates_def empty_frame_def)
  next
    case False
    then have "rows out = first_occurrences id [] (rows pre)"
      using d p c by (auto simp: dedup_def drop_duplicates_def empty_frame_def split: if_splits)
    then show ?thesis
      using fo_distinct [of id "[]" "rows pre"] fo_positions [of id "rows pre"]
      by simp
  qed
  have none: "rows out = rows pre" if "columns pre = []"
    using d that by (auto simp: dedup_def drop_duplicates_def empty_frame_def)
  show ?thesis using cols keyed plain none by blast
qed

theorem clean_data_deduplicates_witness:
  "prepare sample_library sample_table = Inr prepared_sample \<and>
   clean_data sample_library sample_table = Inr cleaned_sample \<and>
   ''patient_id'' \<in> set (columns prepared_sample) \<and>
   length (rows prepared_sample) = 4 \<and> length (rows cleaned_sample) = 3 \<and>
   distinct (map (row_key [''patient_id'', ''admission_date''] (columns prepared_sample))
     (rows cleaned_sample))"
proof -
  have m: "''patient_id'' \<in> set (columns prepared_sample)" by code_simp
  have l: "length (rows prepared_sample) = 4" "length (rows cleaned_sample) = 3" by code_simp+
  from clean_data_deduplicates [OF prepare_sample clean_sample] m
  have "distinct (map (row_key [''patient_id'', ''admission_date''] (columns prepared_sample))
     (rows cleaned_sample))"
    by blast
  with m l prepare_sample clean_sample show ?thesis by blast
qed

text \<open>
  C6 (corrected). As stated: after cleaning, the length\_of\_stay column exists exactly when
  both date columns exist. \<^verbatim>\<open>clean_data\<close> never removes a column, so a table that
  comes with a length\_of\_stay column and no dates still has it after cleaning.
\<close>

theorem length_of_stay_kept_without_dates:
  "clean_data sample_library \<lparr>columns = [''Length_Of_Stay''], rows = [[Num 3]]\<rparr>
     = Inr \<lparr>columns = [''length_of_stay''], rows = [[Num 3]]\<rparr> \<and>
   ''length_of_stay'' \<in> set (columns \<lparr>columns = [''length_of_stay''], rows = [[Num 3]]\<rparr>) \<and>
   ''admission_date'' \<notin> set (columns \<lparr>columns = [''length_of_stay''], rows = [[Num 3]]\<rparr>)"
  by code_simp

text \<open>
  C6 as amended. For a table whose rows have one cell per column and on which
  \<^verbatim>\<open>clean_data\<close> returns: the result has a length\_of\_stay column exactly when it has
  both date columns or the table came with a column of that name (after trimming and
  lower-casing). When both date columns exist, every row has a length\_of\_stay cell, its
  dates are timestamps or missing, and each length\_of\_stay cell is the whole number of
  days (rounded down) from admission to discharge when both are timestamps, which is at
  least 0 when discharge is not before admission, and is missing when either date is
  missing.
\<close>

theorem length_of_stay_after_cleaning:
  assumes "clean_data lib df = Inr out" and "wf_frame df"
  shows "(''length_of_stay'' \<in> set (columns out) \<longleftrightarrow>
            ''admission_date'' \<in> set (columns out) \<and> ''discharge_date'' \<in> set (columns out) \<or>
            ''length_of_stay'' \<in> set (map (\<lambda>c. lower (strip c)) (columns df))) \<and>
         (''admission_date'' \<in> set (columns out) \<and> ''discharge_date'' \<in> set (columns out) \<longrightarrow>
            (\<forall>r \<in> set (rows out).
               cells_named (columns out) r ''length_of_stay'' \<noteq> [] \<and>
               (cell_at (columns out) r ''admission_date'' = Null \<or>
                  (\<exists>x. cell_at (columns out) r ''admission_date'' = Date x)) \<and>
               (cell_at (columns out) r ''discharge_date'' = Null \<or>
                  (\<exists>y. cell_at (columns out) r ''discharge_date'' = Date y)) \<and>
               (\<forall>l \<in> set (cells_named (columns out) r ''length_of_stay'').
                  (\<forall>x y. cell_at (columns out) r ''admission_date'' = Date x \<and>
                         cell_at (columns out) r ''discharge_date'' = Date y \<longrightarrow>
                         l = Num (of_int ((y - x) div day_ns)) \<and>
                         (x \<le> y \<longrightarrow> 0 \<le> (y - x) div day_ns)) \<and>
                  (cell_at (columns out) r ''admission_date'' = Null \<or>
                   cell_at (columns out) r ''discharge_date'' = Null \<longrightarrow> l = Null))))"
proof -
  from assms(1) obtain pre where p: "prepare lib df = Inr pre" and d: "dedup pre = Inr out"
    by (auto simp: clean_data_def split: sum.splits)
  have c: "columns out = columns pre" by (rule dedup_Inr(1) [OF d])
  have first: "''length_of_stay'' \<in> set (columns out) \<longleftrightarrow>
            ''admission_date'' \<in> set (columns out) \<and> ''discharge_date'' \<in> set (columns out) \<or>
            ''length_of_stay'' \<in> set (map (\<lambda>c. lower (strip c)) (columns df))"
    unfolding c by (rule prepare_columns_los [OF p assms(2)])
  note q = clean_data_prepared [OF assms]
  have second: "cells_named (columns out) r ''length_of_stay'' \<noteq> [] \<and>
               (cell_at (columns out) r ''admission_date'' = Null \<or>
                  (\<exists>x. cell_at (columns out) r ''admission_date'' = Date x)) \<and>
               (cell_at (columns out) r ''discharge_date'' = Null \<or>
                  (\<exists>y. cell_at (columns out) r ''discharge_date'' = Date y)) \<and>
               (\<forall>l \<in> set (cells_named (columns out) r ''length_of_stay'').
                  (\<forall>x y. cell_at (columns out) r ''admission_date'' = Date x \<and>
                         cell_at (columns out) r ''discharge_date'' = Date y \<longrightarrow>
                         l = Num (of_int ((y - x) div day_ns)) \<and>
                         (x \<le> y \<longrightarrow> 0 \<le> (y - x) div day_ns)) \<and>
                  (cell_at (columns out) r ''admission_date'' = Null \<or>
                   cell_at (columns out) r ''discharge_date'' = Null \<longrightarrow> l = Null))"
    if both: "''admission_date'' \<in> set (columns out)" "''discharge_date'' \<in> set (columns out)"
      and r: "r \<in> set (rows out)" for r
  proof -
    have pr: "prepared_row (columns out) r"
      using q(1) r by (simp add: prepared_def list_all_iff)
    have len: "length r = length (columns out)"
      using q(2) r by (simp add: wf_frame_def list_all_iff)
    have m: "''length_of_stay'' \<in> set (columns out)" using first both by simp
    have ok: "los_ok (columns out) r" using pr both by (simp add: prepared_row_def)
    have "is_date_or_null (cell_at (columns out) r ''admission_date'')"
      using pr by (simp add: prepared_row_def cell_at_date_or_null)
    then have a1: "cell_at (columns out) r ''admission_date'' = Null \<or>
                  (\<exists>x. cell_at (columns out) r ''admission_date'' = Date x)"
      by (simp only: is_date_or_null_cases)
    have "is_date_or_null (cell_at (columns out) r ''discharge_date'')"
      using pr by (simp add: prepared_row_def cell_at_date_or_null)
    then have a2: "cell_at (columns out) r ''discharge_date'' = Null \<or>
                  (\<exists>y. cell_at (columns out) r ''discharge_date'' = Date y)"
      by (simp only: is_date_or_null_cases)
    have v: "l = los_cell (cell_at (columns out) r ''admission_date'')
                   (cell_at (columns out) r ''discharge_date'')"
      if "l \<in> set (cells_named (columns out) r ''length_of_stay'')" for l
      using ok that by (simp add: los_ok_def list_all_iff row_los_def)
    have w: "(\<forall>x y. cell_at (columns out) r ''admission_date'' = Date x \<and>
                         cell_at (columns out) r ''discharge_date'' = Date y \<longrightarrow>
                         l = Num (of_int ((y - x) div day_ns)) \<and>
                         (x \<le> y \<longrightarrow> 0 \<le> (y - x) div day_ns)) \<and>
                  (cell_at (columns out) r ''admission_date'' = Null \<or>
                   cell_at (columns out) r ''discharge_date'' = Null \<longrightarrow> l = Null)"
      if "l \<in> set (cells_named (columns out) r ''length_of_stay'')" for l
    proof (intro conjI allI impI)
      fix x y
      assume "cell_at (columns out) r ''admission_date'' = Date x \<and>
              cell_at (columns out) r ''discharge_date'' = Date y"
      then show "l = Num (of_int ((y - x) div day_ns))"
        using v [OF that] by (simp add: los_cell_dates)
    next
      fix x y :: int
      assume "x \<le> y"
      then show "0 \<le> (y - x) div day_ns" by (rule whole_days_nonneg)
    next
      assume "cell_at (columns out) r ''admission_date'' = Null \<or>
              cell_at (columns out) r ''discharge_date'' = Null"
      then show "l = Null"
        using v [OF that] by (simp only: los_cell_Null)
    qed
    show ?thesis
      apply (rule conjI [OF cells_named_present [OF m len]])
      apply (rule conjI [OF a1])
      apply (rule conjI [OF a2])
      apply (rule ballI)
      apply (erule w)
      done
  qed
  show ?thesis
    apply (rule conjI [OF first])
    apply (rule impI, rule ballI)
    apply (erule conjE)
    apply (rule second; assumption)
    done
qed

theorem length_of_stay_after_cleaning_witness:
  "clean_data sample_library sample_table = Inr cleaned_sample \<and> wf_frame sample_table \<and>
   ''length_of_stay'' \<in> set (columns cleaned_sample) \<and>
   ''length_of_stay'' \<notin> set (map (\<lambda>c. lower (strip c)) (columns sample_table)) \<and>
   cells_named (columns cleaned_sample) (hd (rows cleaned_sample)) ''length_of_stay'' = [Num 2]"
proof -
  have e: "''admission_date'' \<in> set (columns cleaned_sample)"
    "''discharge_date'' \<in> set (columns cleaned_sample)"
    "''length_of_stay'' \<notin> set (map (\<lambda>c. lower (strip c)) (columns sample_table))"
    "cells_named (columns cleaned_sample) (hd (rows cleaned_sample)) ''length_of_stay'' = [Num 2]"
    by code_simp+
  have "''length_of_stay'' \<in> set (columns cleaned_sample) \<longleftrightarrow>
            ''admission_date'' \<in> set (columns cleaned_sample) \<and>
            ''discharge_date'' \<in> set (columns cleaned_sample) \<or>
            ''length_of_stay'' \<in> set (map (\<lambda>c. lower (strip c)) (columns sample_table))"
    by (rule conjunct1 [OF length_of_stay_after_cleaning [OF clean_sample wf_sample]])
  with e clean_sample wf_sample show ?thesis by simp
qed




text \<open>
  C3 (the code does not do what the claim says). Each charting function is claimed to
  return no chart when a column it needs is absent, and not to raise. On a table with an
  age column only, \<^verbatim>\<open>plot_admissions_over_time\<close> raises the \<^verbatim>\<open>ValueError\<close> of
  \<^verbatim>\<open>admissions_over_time\<close>, whatever the frequency, and \<^verbatim>\<open>plot_outcomes_by_age_hist\<close>
  raises \<^verbatim>\<open>KeyError\<close>, since \<^verbatim>\<open>dropna\<close> is given the absent label \<^verbatim>\<open>outcome\<close>.
\<close>

theorem charts_raise_without_required_column:
  "plot_admissions_over_time \<lparr>columns = [''age''], rows = [[Num 30]]\<rparr> freq = Inl ValueError \<and>
   plot_outcomes_by_age_hist \<lparr>columns = [''age''], rows = [[Num 30]]\<rparr> 10 = Inl KeyError"
  by (simp add: plot_admissions_over_time_def admissions_over_time_def
      plot_outcomes_by_age_hist_def dropna_def)

text \<open>
  C9 (confirmed). Constructing the analyzer from the frame at position \<open>a\<close> of a store
  and calling \<^verbatim>\<open>clean_data\<close> leaves every frame the store had before, the caller's
  among them, as it was, whether the call returns or raises; the frame returned is a new
  object, and it is the frame \<open>clean_data\<close> computes from the caller's frame. The
  queries are functions of the analyzer's frame and write nothing.
\<close>

theorem caller_table_unchanged:
  assumes "a < length st"
    and "HealthAnalyzer a st = (self, st1)"
    and "clean_data_method lib self st1 = (res, self', st2)"
  shows "take (length st) st2 = st \<and> st2 ! a = st ! a \<and>
         (case res of
            Inl e \<Rightarrow> clean_data lib (st ! a) = Inl e
          | Inr r \<Rightarrow> clean_data lib (st ! a) = Inr (st2 ! r) \<and> self' = r \<and> r \<noteq> a)"
proof -
  from assms(2) have s: "self = length st" and st1: "st1 = st @ [st ! a]"
    by (auto simp: HealthAnalyzer_def)
  obtain e st' where ri: "run_inplace (inplace_steps lib) self st1 = (e, st')"
    by (cases "run_inplace (inplace_steps lib) self st1")
  have lt: "self < length st1" by (simp add: s st1)
  note f = run_inplace_frame [OF ri lt]
  have len: "length st' = Suc (length st)" using f by (simp add: st1)
  have same: "st' ! i = st ! i" if "i < length st" for i
    using f that by (simp add: s st1 nth_append)
  have tk: "take (length st) st' = st"
    by (rule nth_equalityI) (simp_all add: len same)
  have start: "st1 ! self = st ! a" by (simp add: s st1)
  show ?thesis
  proof (cases e)
    case (Some err)
    then have "res = Inl err" "st2 = st'"
      using assms(3) ri by (simp_all add: clean_data_method_def)
    moreover have "prepare lib (st ! a) = Inl err"
      using f Some start by (simp add: prepare_def)
    ultimately show ?thesis using tk same assms(1) by (simp add: clean_data_def)
  next
    case None
    then have p: "prepare lib (st ! a) = Inr (st' ! self)"
      using f start by (simp add: prepare_def)
    show ?thesis
    proof (cases "dedup (st' ! self)")
      case (Inl err)
      then have "res = Inl err" "st2 = st'"
        using assms(3) ri None by (simp_all add: clean_data_method_def)
      then show ?thesis using tk same assms(1) p Inl by (simp add: clean_data_def)
    next
      case (Inr d)
      then have "res = Inr (length st')" "st2 = st' @ [d]" "self' = length st'"
        using assms(3) ri None by (auto simp: clean_data_method_def)
      then show ?thesis using tk same assms(1) p Inr len
        by (simp add: clean_data_def nth_append)
    qed
  qed
qed

theorem caller_table_unchanged_witness:
  "(0::nat) < length [sample_table] \<and>
   HealthAnalyzer 0 [sample_table] = (1, [sample_table, sample_table]) \<and>
   fst (clean_data_method sample_library 1 [sample_table, sample_table]) = Inr 2 \<and>
   snd (snd (clean_data_method sample_library 1 [sample_table, sample_table])) ! 0 = sample_table"
proof -
  have h1: "(0::nat) < length [sample_table]" by simp
  have h2: "HealthAnalyzer 0 [sample_table] = (1, [sample_table, sample_table])"
    by (simp add: HealthAnalyzer_def)
  have h3: "fst (clean_data_method sample_library 1 [sample_table, sample_table]) = Inr 2"
    by code_simp
  have h4: "clean_data_method sample_library 1 [sample_table, sample_table] =
      (fst (clean_data_method sample_library 1 [sample_table, sample_table]),
       fst (snd (clean_data_method sample_library 1 [sample_table, sample_table])),
       snd (snd (clean_data_method sample_library 1 [sample_table, sample_table])))"
    by simp
  from caller_table_unchanged [OF h1 h2 h4] h1 h2 h3 show ?thesis by simp
qed

text \<open>
  C10 (corrected). As stated: after \<^verbatim>\<open>clean_data\<close> a missing outcome is the string
  \<^verbatim>\<open>nan\<close>, and \<^verbatim>\<open>summarize_outcomes\<close> counts it under that string. The string is the
  text Python prints for the missing value, lower-cased: for a table whose missing
  outcome is \<^verbatim>\<open>None\<close> it is \<^verbatim>\<open>none\<close>, and the outcome is counted under
  \<^verbatim>\<open>none\<close>.
\<close>

theorem missing_outcome_printed_as_none:
  "clean_data none_library \<lparr>columns = [''outcome''], rows = [[Null]]\<rparr>
     = Inr \<lparr>columns = [''outcome''], rows = [[Str ''none'']]\<rparr> \<and>
   summarize_outcomes none_library \<lparr>columns = [''outcome''], rows = [[Str ''none'']]\<rparr> ByNone
     = Inr (Overall [([Str ''none''], 1)] [([Str ''none''], Some 1)])"
  by code_simp

text \<open>
  C10 as amended. Let \<open>pre\<close> be the frame before duplicates are dropped and \<open>out\<close>
  the frame returned, for a table with an outcome column whose rows have one cell per
  column, and a library whose sort of integers sorts. Every outcome cell of \<open>pre\<close> is
  the text of the cell of the table in the same row, lower-cased and trimmed: the text
  of a string is the string, and the text of any other cell, a missing one included, is
  the one Python's \<^verbatim>\<open>str\<close> gives it (\<^verbatim>\<open>nan\<close> for \<^verbatim>\<open>NaN\<close>, \<^verbatim>\<open>None\<close> for
  \<^verbatim>\<open>None\<close>). The rows of \<open>out\<close> are rows of \<open>pre\<close>; every outcome cell of \<open>out\<close>
  is a string that lower-casing and trimming leave as it is, so none is missing; and
  \<^verbatim>\<open>summarize_outcomes\<close> without a grouping returns, for every row, the outcome of the
  row with the number of rows that have it.
\<close>

theorem outcome_after_cleaning:
  assumes p: "prepare lib df = Inr pre" and c: "clean_data lib df = Inr out"
    and wf: "wf_frame df" and o: "''outcome'' \<in> set (columns out)"
    and srt: "sorts (argsort_int64 lib)"
  shows "series pre ''outcome'' =
           map (\<lambda>(i, c). Str (strip (lower
                  (astype_str lib (series (normalize_columns df) ''outcome'') i c))))
             (enumerate 0 (series (normalize_columns df) ''outcome'')) \<and>
         (\<forall>i < length (rows df).
            series (normalize_columns df) ''outcome'' ! i = Null \<longrightarrow>
            series pre ''outcome'' ! i =
              Str (strip (lower (str_of lib (series (normalize_columns df) ''outcome'') i)))) \<and>
         columns out = columns pre \<and> set (rows out) \<subseteq> set (rows pre) \<and>
         (\<forall>r \<in> set (rows out).
            \<exists>s. cell_at (columns out) r ''outcome'' = Str s \<and> strip (lower s) = s) \<and>
         (\<exists>counts pct. summarize_outcomes lib out ByNone = Inr (Overall counts pct) \<and>
            (\<forall>r \<in> set (rows out).
               ([cell_at (columns out) r ''outcome''],
                length (filter (\<lambda>q. cell_at (columns out) q ''outcome'' =
                                     cell_at (columns out) r ''outcome'') (rows out)))
               \<in> set counts))"
proof -
  let ?raw = "series (normalize_columns df) ''outcome''"
  from p c have d: "dedup pre = Inr out" by (simp add: clean_data_def)
  note e = dedup_Inr [OF d]
  have o': "''outcome'' \<in> set (columns pre)" using o e(1) by simp
  have s1: "series pre ''outcome'' =
           map (\<lambda>(i, c). Str (strip (lower (astype_str lib ?raw i c)))) (enumerate 0 ?raw)"
    using series_prepared_outcome [OF p wf o'] by (simp add: outcome_label_def)
  have s2: "series pre ''outcome'' ! i = Str (strip (lower (str_of lib ?raw i)))"
    if i: "i < length (rows df)" and n: "?raw ! i = Null" for i
  proof -
    have l: "i < length ?raw" using i by (simp add: series_def normalize_columns_def)
    then have "series pre ''outcome'' ! i = Str (strip (lower (astype_str lib ?raw i (?raw ! i))))"
      unfolding s1 by (simp add: nth_enumerate_eq)
    then show ?thesis by (simp add: n astype_str_def)
  qed
  note q = clean_data_prepared [OF c wf]
  have u: "count_list (columns out) ''outcome'' = 1"
    using q(1) o by (simp add: prepared_def prepared_columns_def)
  have one: "cells_named (columns out) r ''outcome'' = [cell_at (columns out) r ''outcome'']"
    if "r \<in> set (rows out)" for r
  proof -
    have "length r = length (columns out)"
      using q(2) that by (simp add: wf_frame_def list_all_iff)
    with u show ?thesis by (rule cells_named_unique)
  qed
  have s3: "\<exists>s. cell_at (columns out) r ''outcome'' = Str s \<and> strip (lower s) = s"
    if "r \<in> set (rows out)" for r
  proof -
    have "prepared_row (columns out) r"
      using q(1) that by (simp add: prepared_def list_all_iff)
    then have "list_all is_label (cells_named (columns out) r ''outcome'')"
      by (simp add: prepared_row_def)
    then have "is_label (cell_at (columns out) r ''outcome'')"
      by (simp add: one [OF that])
    then show ?thesis by (simp only: is_label_cases)
  qed
  let ?xs = "map (\<lambda>r. cells_named (columns out) r ''outcome'') (rows out)"
  have xs: "?xs = map (\<lambda>r. [cell_at (columns out) r ''outcome'']) (rows out)"
    using one by simp
  from value_counts_sorts [OF srt, of ?xs] obtain cnt where
    vc: "value_counts lib ?xs = Inr cnt"
    and sc: "set cnt = (\<lambda>v. (v, count_list ?xs v)) ` set ?xs"
    by blast
  have so: "summarize_outcomes lib out ByNone = Inr (Overall cnt
      (map (\<lambda>p. (fst p, true_div (snd p) (sum_list (map snd cnt)))) cnt))"
    using o vc by (simp add: summarize_outcomes_def truthy_def)
  have s4: "([cell_at (columns out) r ''outcome''],
                length (filter (\<lambda>q. cell_at (columns out) q ''outcome'' =
                                     cell_at (columns out) r ''outcome'') (rows out)))
               \<in> set cnt"
    if "r \<in> set (rows out)" for r
  proof -
    have "[cell_at (columns out) r ''outcome''] \<in> set ?xs"
      unfolding xs using that by auto
    then have "([cell_at (columns out) r ''outcome''],
        count_list ?xs [cell_at (columns out) r ''outcome'']) \<in> set cnt"
      unfolding sc by (rule imageI)
    moreover have "count_list ?xs [cell_at (columns out) r ''outcome''] =
       length (filter (\<lambda>q. cell_at (columns out) q ''outcome'' =
                            cell_at (columns out) r ''outcome'') (rows out))"
      unfolding xs by (simp add: count_list_map_length)
    ultimately show ?thesis by simp
  qed
  show ?thesis
    apply (rule conjI [OF s1])
    apply (rule conjI)
     apply (rule allI, rule impI, rule impI)
     apply (erule s2, assumption)
    apply (rule conjI [OF e(1)])
    apply (rule conjI [OF e(2)])
    apply (rule conjI)
     apply (rule ballI)
     apply (erule s3)
    apply (rule exI, rule exI)
    apply (rule conjI [OF so])
    apply (rule ballI)
    apply (erule s4)
    done
qed

theorem outcome_after_cleaning_witness:
  "prepare sample_library sample_table = Inr prepared_sample \<and>
   clean_data sample_library sample_table = Inr cleaned_sample \<and>
   wf_frame sample_table \<and> ''outcome'' \<in> set (columns cleaned_sample) \<and>
   sorts (argsort_int64 sample_library) \<and>
   series (normalize_columns sample_table) ''outcome''
     = [Str ''Discharge '', Str ''death'', Null, Str ''DAMA''] \<and>
   series prepared_sample ''outcome''
     = [Str ''discharge'', Str ''death'', Str ''nan'', Str ''dama'']"
proof -
  have o: "''outcome'' \<in> set (columns cleaned_sample)" by code_simp
  have srt: "sorts (argsort_int64 sample_library)"
    using sorting_sample by (simp add: sorting_def)
  have t: "series prepared_sample ''outcome'' =
           map (\<lambda>(i, c). Str (strip (lower
                  (astype_str sample_library (series (normalize_columns sample_table) ''outcome'') i c))))
             (enumerate 0 (series (normalize_columns sample_table) ''outcome''))"
    by (rule conjunct1 [OF outcome_after_cleaning [OF prepare_sample clean_sample wf_sample o srt]])
  have e: "map (\<lambda>(i, c). Str (strip (lower
                  (astype_str sample_library (series (normalize_columns sample_table) ''outcome'') i c))))
             (enumerate 0 (series (normalize_columns sample_table) ''outcome''))
           = [Str ''discharge'', Str ''death'', Str ''nan'', Str ''dama'']"
    by code_simp
  have r: "series (normalize_columns sample_table) ''outcome''
     = [Str ''Discharge '', Str ''death'', Null, Str ''DAMA'']"
    by code_simp
  from t e r o srt prepare_sample clean_sample wf_sample show ?thesis by simp
qed

text \<open>
  C7 (confirmed). For a cleaned frame with an admission\_date column and at least one
  known date, \<^verbatim>\<open>admissions_over_time\<close> returns, for every period from that of the
  earliest known date to that of the latest, in order and without a gap, the number of
  rows whose admission date falls in the period, which is 0 for a period without rows;
  this holds for every frequency, the default one included. Without an admission\_date
  column it raises \<^verbatim>\<open>ValueError\<close>.
\<close>

theorem admissions_over_time_dense:
  assumes "clean_data lib raw = Inr df" and "wf_frame raw"
  shows "(''admission_date'' \<in> set (columns df) \<and>
          known_dates (series df ''admission_date'') \<noteq> [] \<longrightarrow>
            admissions_over_time df freq =
              Inr (map (\<lambda>p. (p, length (filter
                      (\<lambda>r. case cell_at (columns df) r ''admission_date'' of
                             Date d \<Rightarrow> freq d = p | _ \<Rightarrow> False) (rows df))))
                    [freq (Min (set (known_dates (series df ''admission_date'')))) ..
                     freq (Max (set (known_dates (series df ''admission_date''))))])) \<and>
         (''admission_date'' \<notin> set (columns df) \<longrightarrow>
            admissions_over_time df freq = Inl ValueError)"
proof -
  note q = clean_data_prepared [OF assms]
  have second: "admissions_over_time df freq = Inl ValueError"
    if "''admission_date'' \<notin> set (columns df)"
    using that by (simp add: admissions_over_time_def)
  have first: "admissions_over_time df freq =
              Inr (map (\<lambda>p. (p, length (filter
                      (\<lambda>r. case cell_at (columns df) r ''admission_date'' of
                             Date d \<Rightarrow> freq d = p | _ \<Rightarrow> False) (rows df))))
                    [freq (Min (set (known_dates (series df ''admission_date'')))) ..
                     freq (Max (set (known_dates (series df ''admission_date''))))])"
    if m: "''admission_date'' \<in> set (columns df)"
      and k: "known_dates (series df ''admission_date'') \<noteq> []"
  proof -
    have u: "count_list (columns df) ''admission_date'' = 1"
      using q(1) m by (simp add: prepared_def prepared_columns_def)
    have d: "list_all is_date_or_null (series df ''admission_date'')"
      using prepared_cells(1) [OF q(1)] by (rule series_date_or_null)
    have "admissions_over_time df freq =
        Inr (resample_size freq (known_dates (series df ''admission_date'')))"
      using m u d k by (simp add: admissions_over_time_def)
    moreover have "resample_size freq (known_dates (series df ''admission_date'')) =
        map (\<lambda>p. (p, length (filter
                      (\<lambda>r. case cell_at (columns df) r ''admission_date'' of
                             Date d \<Rightarrow> freq d = p | _ \<Rightarrow> False) (rows df))))
                    [freq (Min (set (known_dates (series df ''admission_date'')))) ..
                     freq (Max (set (known_dates (series df ''admission_date''))))]"
      using k unfolding resample_size_def
      by (simp add: series_def filter_known_dates)
    ultimately show ?thesis by simp
  qed
  show ?thesis
    apply (rule conjI)
     apply (rule impI, erule conjE)
     apply (rule first; assumption)
    apply (rule impI)
    apply (erule second)
    done
qed

theorem admissions_over_time_dense_witness:
  "clean_data sample_library sample_table = Inr cleaned_sample \<and> wf_frame sample_table \<and>
   ''admission_date'' \<in> set (columns cleaned_sample) \<and>
   known_dates (series cleaned_sample ''admission_date'') \<noteq> [] \<and>
   admissions_over_time cleaned_sample freq_D = Inr [(18266, 2), (18267, 0), (18268, 1)] \<and>
   admissions_over_time cleaned_sample freq_M = Inr [(600, 3)]"
proof -
  have m: "''admission_date'' \<in> set (columns cleaned_sample)"
    and k: "known_dates (series cleaned_sample ''admission_date'') \<noteq> []"
    by code_simp+
  have d: "map (\<lambda>p. (p, length (filter
                      (\<lambda>r. case cell_at (columns cleaned_sample) r ''admission_date'' of
                             Date d \<Rightarrow> freq_D d = p | _ \<Rightarrow> False) (rows cleaned_sample))))
                    [freq_D (Min (set (known_dates (series cleaned_sample ''admission_date'')))) ..
                     freq_D (Max (set (known_dates (series cleaned_sample ''admission_date''))))]
        = [(18266, 2), (18267, 0), (18268, 1)]"
    by code_simp
  have mm: "admissions_over_time cleaned_sample freq_M = Inr [(600, 3)]"
    by code_simp
  from admissions_over_time_dense [OF clean_sample wf_sample, of freq_D] m k
  have "admissions_over_time cleaned_sample freq_D =
      Inr (map (\<lambda>p. (p, length (filter
                      (\<lambda>r. case cell_at (columns cleaned_sample) r ''admission_date'' of
                             Date d \<Rightarrow> freq_D d = p | _ \<Rightarrow> False) (rows cleaned_sample))))
                    [freq_D (Min (set (known_dates (series cleaned_sample ''admission_date'')))) ..
                     freq_D (Max (set (known_dates (series cleaned_sample ''admission_date''))))])"
    by blast
  with d m k mm clean_sample wf_sample show ?thesis by simp
qed




text \<open>
  C4 (corrected). As stated: the group sizes, or the group means, come in descending
  order, and among groups with equal values the groups keep the order in which the table
  first shows them. \<^verbatim>\<open>groupby\<close> lists the groups in ascending order of their key before
  anything is sorted, so the order of first appearance never reaches the sort: the table
  whose department column reads B, A and the table whose column reads A, B give the same
  result, whatever the library's sort does with the two equal counts. With a stable
  sort that result lists A before B.
\<close>

theorem tied_groups_forget_encounter_order:
  "(\<forall>lib. aggregate_by lib \<lparr>columns = [''department''], rows = [[Str ''B''], [Str ''A'']]\<rparr>
             ''department'' ''count'' None
         = aggregate_by lib \<lparr>columns = [''department''], rows = [[Str ''A''], [Str ''B'']]\<rparr>
             ''department'' ''count'' None) \<and>
   series \<lparr>columns = [''department''], rows = [[Str ''B''], [Str ''A'']]\<rparr> ''department''
     = [Str ''B'', Str ''A''] \<and>
   series \<lparr>columns = [''department''], rows = [[Str ''A''], [Str ''B'']]\<rparr> ''department''
     = [Str ''A'', Str ''B''] \<and>
   aggregate_by sample_library \<lparr>columns = [''department''], rows = [[Str ''B''], [Str ''A'']]\<rparr>
      ''department'' ''count'' None
     = Inr (Sizes [([Str ''A''], 1), ([Str ''B''], 1)])"
proof -
  have g1: "groupby \<lparr>columns = [''department''], rows = [[Str ''B''], [Str ''A'']]\<rparr> [''department'']
      = Inr [([Str ''A''], [[Str ''A'']]), ([Str ''B''], [[Str ''B'']])]"
    by code_simp
  have g2: "groupby \<lparr>columns = [''department''], rows = [[Str ''A''], [Str ''B'']]\<rparr> [''department'']
      = Inr [([Str ''A''], [[Str ''A'']]), ([Str ''B''], [[Str ''B'']])]"
    by code_simp
  have e: "aggregate_by lib \<lparr>columns = [''department''], rows = [[Str ''B''], [Str ''A'']]\<rparr>
             ''department'' ''count'' None
         = aggregate_by lib \<lparr>columns = [''department''], rows = [[Str ''A''], [Str ''B'']]\<rparr>
             ''department'' ''count'' None" for lib
    by (simp only: aggregate_by_def g1 g2 if_True refl)
  have s1: "series \<lparr>columns = [''department''], rows = [[Str ''B''], [Str ''A'']]\<rparr> ''department''
     = [Str ''B'', Str ''A'']" by code_simp
  have s2: "series \<lparr>columns = [''department''], rows = [[Str ''A''], [Str ''B'']]\<rparr> ''department''
     = [Str ''A'', Str ''B'']" by code_simp
  have c: "aggregate_by sample_library \<lparr>columns = [''department''], rows = [[Str ''B''], [Str ''A'']]\<rparr>
      ''department'' ''count'' None
     = Inr (Sizes [([Str ''A''], 1), ([Str ''B''], 1)])" by code_simp
  from e s1 s2 c show ?thesis by blast
qed

text \<open>
  C4 as amended. For a library whose sorts sort, and a grouping label that one column
  carries: with \<^verbatim>\<open>agg="count"\<close> the result lists every group (every key without a
  missing value) once with its number of rows, in descending order of that number. With
  \<^verbatim>\<open>agg="mean"\<close> and a value column that one column carries and that holds numbers and
  missing values only, the result lists every group once with the mean of its numbers,
  in descending order of the mean, and the groups without a number last, with a missing
  mean, in ascending order of their key. The order among groups of equal size or of
  equal mean is the one numpy's sort gives them; it is not fixed by the program, and
  nothing more is stated of it.
\<close>

theorem aggregate_by_sorted:
  assumes "sorting lib" and "count_list (columns df) column = 1"
  shows "(\<exists>s. aggregate_by lib df column ''count'' value_col = Inr (Sizes s) \<and>
            sorted_wrt (\<lambda>a b. snd b \<le> snd a) s \<and>
            distinct (map fst s) \<and>
            set s =
              (\<lambda>k. (k, length (filter (\<lambda>r. group_key [column] (columns df) r = k) (rows df)))) `
              {k \<in> set (map (group_key [column] (columns df)) (rows df)). Null \<notin> set k}) \<and>
         (count_list (columns df) v = 1 \<and> v \<noteq> [] \<and> list_all is_num_or_null (series df v) \<longrightarrow>
            (\<exists>m. aggregate_by lib df column ''mean'' (Some v) = Inr (Means m) \<and>
               sorted_wrt
                 (\<lambda>a b. case snd a of
                      Some x \<Rightarrow> (case snd b of Some y \<Rightarrow> y \<le> x | None \<Rightarrow> True)
                    | None \<Rightarrow> (case snd b of
                          Some y \<Rightarrow> False
                        | None \<Rightarrow> map cell_rank (fst a) < map cell_rank (fst b))) m \<and>
               distinct (map fst m) \<and>
               set m =
                 (\<lambda>k. (k, let ns = numbers (map (\<lambda>r. cell_at (columns df) r v)
                            (filter (\<lambda>r. group_key [column] (columns df) r = k) (rows df)))
                           in if ns = [] then None else Some (sum_list ns / of_nat (length ns)))) `
                 {k \<in> set (map (group_key [column] (columns df)) (rows df)). Null \<notin> set k}))"
proof -
  from assms(1) have si: "sorts (argsort_int64 lib)" and sf: "sorts (argsort_float64 lib)"
    by (simp_all add: sorting_def)
  note count = group_sizes_sorts [OF si assms(2), of value_col]
  have mean: "\<exists>m. aggregate_by lib df column ''mean'' (Some v) = Inr (Means m) \<and>
               sorted_wrt
                 (\<lambda>a b. case snd a of
                      Some x \<Rightarrow> (case snd b of Some y \<Rightarrow> y \<le> x | None \<Rightarrow> True)
                    | None \<Rightarrow> (case snd b of
                          Some y \<Rightarrow> False
                        | None \<Rightarrow> map cell_rank (fst a) < map cell_rank (fst b))) m \<and>
               distinct (map fst m) \<and>
               set m =
                 (\<lambda>k. (k, let ns = numbers (map (\<lambda>r. cell_at (columns df) r v)
                            (filter (\<lambda>r. group_key [column] (columns df) r = k) (rows df)))
                           in if ns = [] then None else Some (sum_list ns / of_nat (length ns)))) `
                 {k \<in> set (map (group_key [column] (columns df)) (rows df)). Null \<notin> set k}"
    if h: "count_list (columns df) v = 1" "v \<noteq> []" "list_all is_num_or_null (series df v)"
  proof -
    from group_means_sorts [OF sf assms(2) h(1) h(3)] obtain m where
      m: "group_means lib df column v = Inr m" and
      rest: "sorted_wrt
                 (\<lambda>a b. case snd a of
                      Some x \<Rightarrow> (case snd b of Some y \<Rightarrow> y \<le> x | None \<Rightarrow> True)
                    | None \<Rightarrow> (case snd b of
                          Some y \<Rightarrow> False
                        | None \<Rightarrow> map cell_rank (fst a) < map cell_rank (fst b))) m \<and>
               distinct (map fst m) \<and>
               set m =
                 (\<lambda>k. (k, let ns = numbers (map (\<lambda>r. cell_at (columns df) r v)
                            (filter (\<lambda>r. group_key [column] (columns df) r = k) (rows df)))
                           in if ns = [] then None else Some (sum_list ns / of_nat (length ns)))) `
                 {k \<in> set (map (group_key [column] (columns df)) (rows df)). Null \<notin> set k}"
      by blast
    have "aggregate_by lib df column ''mean'' (Some v) = Inr (Means m)"
      using m h(2) by (simp add: aggregate_by_def)
    with rest show ?thesis by blast
  qed
  show ?thesis
    apply (rule conjI [OF count])
    apply (rule impI)
    apply (elim conjE)
    apply (rule mean; assumption)
    done
qed

theorem aggregate_by_sorted_witness:
  "sorting sample_library \<and>
   count_list (columns \<lparr>columns = [''department'', ''satisfaction''],
        rows = [[Str ''A'', Num 4], [Str ''A'', Num 2], [Str ''B'', Num 5]]\<rparr>) ''department'' = 1 \<and>
   aggregate_by sample_library \<lparr>columns = [''department'', ''satisfaction''],
        rows = [[Str ''A'', Num 4], [Str ''A'', Num 2], [Str ''B'', Num 5]]\<rparr>
      ''department'' ''mean'' (Some ''satisfaction'')
     = Inr (Means [([Str ''B''], Some 5), ([Str ''A''], Some 3)]) \<and>
   aggregate_by sample_library \<lparr>columns = [''department'', ''satisfaction''],
        rows = [[Str ''A'', Num 4], [Str ''A'', Num 2], [Str ''B'', Num 5]]\<rparr>
      ''department'' ''count'' None
     = Inr (Sizes [([Str ''A''], 2), ([Str ''B''], 1)]) \<and>
   (\<exists>s. aggregate_by sample_library \<lparr>columns = [''department'', ''satisfaction''],
        rows = [[Str ''A'', Num 4], [Str ''A'', Num 2], [Str ''B'', Num 5]]\<rparr>
          ''department'' ''count'' None = Inr (Sizes s) \<and>
        sorted_wrt (\<lambda>a b. snd b \<le> snd a) s \<and> distinct (map fst s))"
proof -
  let ?t = "\<lparr>columns = [''department'', ''satisfaction''],
        rows = [[Str ''A'', Num 4], [Str ''A'', Num 2], [Str ''B'', Num 5]]\<rparr>"
  have h: "count_list (columns ?t) ''department'' = 1" by code_simp
  have e1: "aggregate_by sample_library ?t ''department'' ''mean'' (Some ''satisfaction'')
     = Inr (Means [([Str ''B''], Some 5), ([Str ''A''], Some 3)])" by code_simp
  have e2: "aggregate_by sample_library ?t ''department'' ''count'' None
     = Inr (Sizes [([Str ''A''], 2), ([Str ''B''], 1)])" by code_simp
  from conjunct1 [OF aggregate_by_sorted [OF sorting_sample h, of None]]
  have "\<exists>s. aggregate_by sample_library ?t ''department'' ''count'' None = Inr (Sizes s) \<and>
        sorted_wrt (\<lambda>a b. snd b \<le> snd a) s \<and> distinct (map fst s)"
    by blast
  with sorting_sample h e1 e2 show ?thesis by blast
qed

end
